theory Spec2Isabelle
  imports Main "HOL-Library.Word"
begin

section \<open>Values, schemas and dataframes\<close>

text \<open>
  \<^verbatim>\<open>etl.py\<close> is a sequence of dataframe calls. The embedding keeps one definition per
  call of the source and one definition per dataframe operation the calls use. A cell is
  a typed value or null. A double is carried by its decimal literal: no line of the
  program computes on one. A timestamp is carried as whole seconds since the epoch, the
  resolution at which the program reads it (\<^verbatim>\<open>F.hour\<close>, \<^verbatim>\<open>F.month\<close>, ...).
\<close>

datatype dtype = StringType | DoubleType | LongType | IntegerType | TimestampType

datatype val = VNull | VStr string | VLong int | VInt int | VDouble string | VTimestamp int

datatype error =
    AnalysisException string
  | PathAlreadyExists string
  | PathDoesNotExist string
  | PythonException string

type_synonym struct_type = "(string \<times> dtype) list"

text \<open>
  A dataframe is a plan: its schema is known as soon as the transformation is called
  (so an unresolved column raises at that line), its rows only when an action (a write)
  runs the plan, and running it may fail (a raise inside a Python udf). \<open>rows\<close> is the
  outcome of running the plan.
\<close>

record dataframe =
  schema :: struct_type
  rows :: "error + val list list"

fun col_index :: "struct_type \<Rightarrow> string \<Rightarrow> nat option" where
  "col_index [] c = None"
| "col_index ((n, t) # fs) c =
     (if n = c then Some 0 else map_option Suc (col_index fs c))"

definition cell :: "struct_type \<Rightarrow> val list \<Rightarrow> string \<Rightarrow> val" where
  "cell sch r c =
     (case col_index sch c of
        None \<Rightarrow> VNull
      | Some i \<Rightarrow> (if i < length r then r ! i else VNull))"

definition field_of :: "struct_type \<Rightarrow> string \<Rightarrow> string \<times> dtype" where
  "field_of sch c = (case map_of sch c of None \<Rightarrow> (c, StringType) | Some t \<Rightarrow> (c, t))"

definition on_rows :: "('a \<Rightarrow> 'b) \<Rightarrow> error + 'a \<Rightarrow> error + 'b" where
  "on_rows f rs = (case rs of Inl e \<Rightarrow> Inl e | Inr x \<Rightarrow> Inr (f x))"

text \<open>
  \<^verbatim>\<open>DataFrame.select(*names)\<close>: every name must resolve against the schema of the
  dataframe, otherwise the call raises an analysis exception naming the first column
  that does not resolve. The result has the named columns, in the order given, for
  every row.
\<close>

definition select :: "dataframe \<Rightarrow> string list \<Rightarrow> error + dataframe" where
  "select df cols =
     (case filter (\<lambda>c. col_index (schema df) c = None) cols of
        c # _ \<Rightarrow> Inl (AnalysisException c)
      | [] \<Rightarrow>
          Inr \<lparr>schema = map (field_of (schema df)) cols,
               rows = on_rows (map (\<lambda>r. map (cell (schema df) r) cols)) (rows df)\<rparr>)"

text \<open>
  SQL equality is three-valued: a comparison with null is null, and \<^verbatim>\<open>filter\<close> as well
  as a join condition keep a row only when the condition is true.
\<close>

definition sql_eq :: "val \<Rightarrow> val \<Rightarrow> bool option" where
  "sql_eq a b = (if a = VNull \<or> b = VNull then None else Some (a = b))"

definition filter_df :: "dataframe \<Rightarrow> (val list \<Rightarrow> bool option) \<Rightarrow> dataframe" where
  "filter_df df cond = df\<lparr>rows := on_rows (filter (\<lambda>r. cond r = Some True)) (rows df)\<rparr>"

section \<open>Input sources and the output store\<close>

text \<open>
  What the JSON files under a path hold is the engine's to read. A source gives the rows
  the reader yields under a declared schema (one cell per declared field, null where a
  field is absent or does not coerce), and the dataframe the reader yields when it has
  to infer the schema from the data.
\<close>

record json_source =
  parsed :: "struct_type \<Rightarrow> val list list"
  inferred :: dataframe

type_synonym files = "string \<rightharpoonup> json_source"

text \<open>\<^verbatim>\<open>spark.read.json(path, schema=None)\<close>.\<close>

definition read_json :: "files \<Rightarrow> string \<Rightarrow> struct_type option \<Rightarrow> error + dataframe" where
  "read_json fs path sch =
     (case fs path of
        None \<Rightarrow> Inl (PathDoesNotExist path)
      | Some src \<Rightarrow>
          (case sch of
             None \<Rightarrow> Inr (inferred src)
           | Some s \<Rightarrow> Inr \<lparr>schema = s, rows = Inr (parsed src s)\<rparr>))"

text \<open>
  An output location holds the partition columns and the rows written there.
  \<^verbatim>\<open>df.write.partitionBy(*cols).parquet(path)\<close> is called without \<^verbatim>\<open>.mode(...)\<close>
  everywhere in the source, so the writer runs in its default save mode: it raises when
  the path already exists, before the plan is run. Then the plan runs; a failure of the
  plan fails the write and nothing is stored.
\<close>

record table =
  partition_by :: "string list"
  columns :: struct_type
  content :: "val list list"

type_synonym store = "string \<rightharpoonup> table"

definition write_parquet :: "dataframe \<Rightarrow> string list \<Rightarrow> string \<Rightarrow> store \<Rightarrow> error + store" where
  "write_parquet df parts path st =
     (if path \<in> dom st then Inl (PathAlreadyExists path)
      else case filter (\<lambda>c. col_index (schema df) c = None) parts of
        c # _ \<Rightarrow> Inl (AnalysisException c)
      | [] \<Rightarrow>
          (case rows df of
             Inl e \<Rightarrow> Inl e
           | Inr rs \<Rightarrow>
               Inr (st(path \<mapsto> \<lparr>partition_by = parts, columns = schema df, content = rs\<rparr>))))"

section \<open>The song pipeline\<close>

definition song_data_schema :: struct_type where
  "song_data_schema =
     [(''song_id'', StringType),
      (''year'', StringType),
      (''duration'', DoubleType),
      (''artist_id'', StringType),
      (''artist_name'', StringType),
      (''artist_location'', StringType),
      (''artist_latitude'', DoubleType),
      (''artist_longitude'', DoubleType)]"

definition song_data_path :: "string \<Rightarrow> string" where
  "song_data_path input_data = input_data @ ''data/song_data/song_data/*/*/*/*.json''"

definition songs_table :: "dataframe \<Rightarrow> error + dataframe" where
  "songs_table song_df =
     select song_df [''song_id'', ''title'', ''artist_id'', ''year'', ''duration'']"

definition artists_table :: "dataframe \<Rightarrow> error + dataframe" where
  "artists_table song_df =
     select song_df [''artist_id'', ''artist_name'', ''artist_location'',
                     ''artist_latitude'', ''artist_longitude'', ''num_songs'']"

text \<open>
  \<^verbatim>\<open>process_song_data\<close>, line by line. The result is the exception that ended the
  function, if any, and the output store as the function left it.
\<close>

definition process_song_data :: "files \<Rightarrow> string \<Rightarrow> string \<Rightarrow> store \<Rightarrow> error option \<times> store" where
  "process_song_data fs input_data output_data st =
     (case read_json fs (song_data_path input_data) (Some song_data_schema) of
        Inl e \<Rightarrow> (Some e, st)
      | Inr song_df \<Rightarrow>
     (case songs_table song_df of
        Inl e \<Rightarrow> (Some e, st)
      | Inr songs \<Rightarrow>
     (case write_parquet songs [''year'', ''artist_id''] (output_data @ ''songs_table.parquet'') st of
        Inl e \<Rightarrow> (Some e, st)
      | Inr st1 \<Rightarrow>
     (case artists_table song_df of
        Inl e \<Rightarrow> (Some e, st1)
      | Inr artists \<Rightarrow>
     (case write_parquet artists [] (output_data @ ''artists_table.parquet'') st1 of
        Inl e \<Rightarrow> (Some e, st1)
      | Inr st2 \<Rightarrow> (None, st2))))))"

section \<open>The engine's part of the log pipeline\<close>

text \<open>
  Three things the log pipeline leaves to the engine are parameters of the model:
  what the Python worker returns (or raises) for the body \<^verbatim>\<open>F.to_date(x)\<close> of the
  \<^verbatim>\<open>get_datetime\<close> udf, the offset of the local time zone in which Python's
  \<^verbatim>\<open>fromtimestamp\<close> and the session's calendar functions read an instant, and how the
  engine lays the rows of a result out over partitions.
\<close>

record engine =
  to_date_in_udf :: "val \<Rightarrow> error + val"
  utc_offset :: "int \<Rightarrow> int"
  partitions_of :: "val list list \<Rightarrow> val list list list"

subsection \<open>Calendar fields of a timestamp\<close>

text \<open>
  The calendar functions of \<^verbatim>\<open>pyspark.sql.functions\<close> as documented: the proleptic
  Gregorian calendar, \<^verbatim>\<open>hour\<close> of the local day, \<^verbatim>\<open>dayofweek\<close> counting from
  Sunday = 1, \<^verbatim>\<open>weekofyear\<close> the ISO 8601 week (weeks start on Monday, week 1 is the
  first week with more than three days), null for a null argument. Days are counted
  from 1970-01-01.
\<close>

definition is_leap :: "int \<Rightarrow> bool" where
  "is_leap y = ((y mod 4 = 0 \<and> y mod 100 \<noteq> 0) \<or> y mod 400 = 0)"

definition days_from_civil :: "int \<Rightarrow> int \<Rightarrow> int \<Rightarrow> int" where
  "days_from_civil y m d =
     (let y' = (if m \<le> 2 then y - 1 else y);
          era = y' div 400;
          yoe = y' - era * 400;
          doy = (153 * (if m > 2 then m - 3 else m + 9) + 2) div 5 + d - 1;
          doe = yoe * 365 + yoe div 4 - yoe div 100 + doy
      in era * 146097 + doe - 719468)"

definition year_of_days :: "int \<Rightarrow> int" where
  "year_of_days days =
     (let z = days + 719468;
          era = z div 146097;
          doe = z - era * 146097;
          yoe = (doe - doe div 1460 + doe div 36524 - doe div 146096) div 365;
          doy = doe - (365 * yoe + yoe div 4 - yoe div 100);
          mp = (5 * doy + 2) div 153
      in yoe + era * 400 + (if mp < 10 then 0 else 1))"

definition day_in_year :: "int \<Rightarrow> int" where
  "day_in_year days = days - days_from_civil (year_of_days days) 1 1 + 1"

definition month_of_days :: "int \<Rightarrow> int" where
  "month_of_days days =
     (let leap = is_leap (year_of_days days);
          d0 = day_in_year days;
          d = (if leap \<and> d0 > 60 then d0 - 1 else d0)
      in if leap \<and> d0 = 60 then 2
         else if d \<le> 31 then 1
         else if d \<le> 59 then 2
         else if d \<le> 90 then 3
         else if d \<le> 120 then 4
         else if d \<le> 151 then 5
         else if d \<le> 181 then 6
         else if d \<le> 212 then 7
         else if d \<le> 243 then 8
         else if d \<le> 273 then 9
         else if d \<le> 304 then 10
         else if d \<le> 334 then 11
         else 12)"

definition iso_weekday :: "int \<Rightarrow> int" where
  "iso_weekday days = (days + 3) mod 7 + 1"

definition weeks_in_year :: "int \<Rightarrow> int" where
  "weeks_in_year y =
     (let p = (\<lambda>y. (y + y div 4 - y div 100 + y div 400) mod 7)
      in if p y = 4 \<or> p (y - 1) = 3 then 53 else 52)"

definition week_of_days :: "int \<Rightarrow> int" where
  "week_of_days days =
     (let y = year_of_days days;
          w = (day_in_year days - iso_weekday days + 10) div 7
      in if w < 1 then weeks_in_year (y - 1)
         else if w > weeks_in_year y then 1
         else w)"

definition local_seconds :: "engine \<Rightarrow> int \<Rightarrow> int" where
  "local_seconds eng s = s + utc_offset eng s"

definition F_hour :: "engine \<Rightarrow> val \<Rightarrow> error + val" where
  "F_hour eng v =
     (case v of VTimestamp s \<Rightarrow> Inr (VInt (local_seconds eng s div 3600 mod 24))
      | _ \<Rightarrow> Inr VNull)"

definition F_dayofweek :: "engine \<Rightarrow> val \<Rightarrow> error + val" where
  "F_dayofweek eng v =
     (case v of VTimestamp s \<Rightarrow> Inr (VInt ((local_seconds eng s div 86400 + 4) mod 7 + 1))
      | _ \<Rightarrow> Inr VNull)"

definition F_weekofyear :: "engine \<Rightarrow> val \<Rightarrow> error + val" where
  "F_weekofyear eng v =
     (case v of VTimestamp s \<Rightarrow> Inr (VInt (week_of_days (local_seconds eng s div 86400)))
      | _ \<Rightarrow> Inr VNull)"

definition F_month :: "engine \<Rightarrow> val \<Rightarrow> error + val" where
  "F_month eng v =
     (case v of VTimestamp s \<Rightarrow> Inr (VInt (month_of_days (local_seconds eng s div 86400)))
      | _ \<Rightarrow> Inr VNull)"

definition F_year :: "engine \<Rightarrow> val \<Rightarrow> error + val" where
  "F_year eng v =
     (case v of VTimestamp s \<Rightarrow> Inr (VInt (year_of_days (local_seconds eng s div 86400)))
      | _ \<Rightarrow> Inr VNull)"

subsection \<open>Derived columns\<close>

fun traverse :: "('a \<Rightarrow> error + 'b) \<Rightarrow> 'a list \<Rightarrow> error + 'b list" where
  "traverse f [] = Inr []"
| "traverse f (x # xs) =
     (case f x of
        Inl e \<Rightarrow> Inl e
      | Inr y \<Rightarrow> (case traverse f xs of Inl e \<Rightarrow> Inl e | Inr ys \<Rightarrow> Inr (y # ys)))"

definition put_field :: "struct_type \<Rightarrow> string \<Rightarrow> dtype \<Rightarrow> struct_type" where
  "put_field sch c t =
     (case col_index sch c of None \<Rightarrow> sch @ [(c, t)] | Some i \<Rightarrow> sch[i := (c, t)])"

definition put_cell :: "struct_type \<Rightarrow> string \<Rightarrow> val list \<Rightarrow> val \<Rightarrow> val list" where
  "put_cell sch c r v =
     (case col_index sch c of None \<Rightarrow> r @ [v] | Some i \<Rightarrow> r[i := v])"

text \<open>
  \<^verbatim>\<open>df.withColumn(c, f(arg))\<close> for an expression \<open>f\<close> of one column: the argument must
  resolve when the call is made; the column is replaced when the name exists and
  appended otherwise; \<open>f\<close> is applied to the argument's cell of every row when the plan
  runs, and an exception in \<open>f\<close> fails the run.
\<close>

definition with_column ::
  "dataframe \<Rightarrow> string \<Rightarrow> dtype \<Rightarrow> (val \<Rightarrow> error + val) \<Rightarrow> string \<Rightarrow> error + dataframe" where
  "with_column df c t f arg =
     (case col_index (schema df) arg of
        None \<Rightarrow> Inl (AnalysisException arg)
      | Some _ \<Rightarrow>
          Inr \<lparr>schema = put_field (schema df) c t,
               rows =
                 (case rows df of
                    Inl e \<Rightarrow> Inl e
                  | Inr rs \<Rightarrow>
                      traverse
                        (\<lambda>r. case f (cell (schema df) r arg) of
                               Inl e \<Rightarrow> Inl e
                             | Inr v \<Rightarrow> Inr (put_cell (schema df) c r v))
                        rs)\<rparr>)"

definition and_then :: "error + 'a \<Rightarrow> ('a \<Rightarrow> error + 'b) \<Rightarrow> error + 'b" where
  "and_then m f = (case m of Inl e \<Rightarrow> Inl e | Inr x \<Rightarrow> f x)"

section \<open>The log pipeline\<close>

definition log_data_schema :: struct_type where
  "log_data_schema =
     [(''artist'', StringType),
      (''auth'', StringType),
      (''firstName'', StringType),
      (''gender'', StringType),
      (''itemInSession'', LongType),
      (''lastName'', StringType),
      (''length'', DoubleType),
      (''level'', StringType),
      (''location'', StringType),
      (''method'', StringType),
      (''page'', StringType),
      (''registration'', DoubleType),
      (''sessionId'', LongType),
      (''song'', StringType),
      (''status'', LongType),
      (''ts'', LongType),
      (''userAgent'', StringType),
      (''userId'', StringType)]"

definition log_data_path :: "string \<Rightarrow> string" where
  "log_data_path input_data = input_data @ ''data/log_data/*.json''"

text \<open>\<^verbatim>\<open>log_df.filter(log_df.page == 'NextSong')\<close>: the attribute must resolve.\<close>

definition next_song :: "dataframe \<Rightarrow> error + dataframe" where
  "next_song log_df =
     (case col_index (schema log_df) ''page'' of
        None \<Rightarrow> Inl (AnalysisException ''page'')
      | Some _ \<Rightarrow>
          Inr (filter_df log_df (\<lambda>r. sql_eq (cell (schema log_df) r ''page'') (VStr ''NextSong''))))"

definition users_table :: "dataframe \<Rightarrow> error + dataframe" where
  "users_table log_df =
     select log_df [''firstName'', ''lastName'', ''gender'', ''level'', ''userId'']"

text \<open>
  \<^verbatim>\<open>lambda x: datetime.datetime.fromtimestamp(x / 1000)\<close>. The column \<^verbatim>\<open>ts\<close> is
  declared \<^verbatim>\<open>LongType\<close>, so the lambda receives an int or \<^verbatim>\<open>None\<close>; \<^verbatim>\<open>None / 1000\<close>
  raises. \<^verbatim>\<open>fromtimestamp\<close> raises outside the years 1 to 9999 of the local calendar.
  The second of the result is the floor of \<open>x / 1000\<close>.
\<close>

definition get_timestamp :: "engine \<Rightarrow> val \<Rightarrow> error + val" where
  "get_timestamp eng x =
     (case x of
        VLong ms \<Rightarrow>
          (let s = ms div 1000
           in if local_seconds eng s < - 62135596800 \<or> 253402300799 < local_seconds eng s
              then Inl (PythonException ''year is out of range'')
              else Inr (VTimestamp s))
      | _ \<Rightarrow> Inl (PythonException ''unsupported operand type(s) for /''))"

text \<open>\<^verbatim>\<open>lambda x: F.to_date(x)\<close>: a call into the engine from inside the worker.\<close>

definition get_datetime :: "engine \<Rightarrow> val \<Rightarrow> error + val" where
  "get_datetime eng x = to_date_in_udf eng x"

text \<open>
  As the library is written, \<^verbatim>\<open>F.to_date\<close> builds a column expression through the
  driver's \<^verbatim>\<open>SparkContext\<close> and expects a column or a column name. Inside a udf it is
  called on a worker, where there is no context, with the Python int of the cell: the call
  raises. \<open>on_worker eng\<close> is the engine \<open>eng\<close> with this behaviour.
\<close>

definition on_worker :: "engine \<Rightarrow> engine" where
  "on_worker eng =
     eng\<lparr>to_date_in_udf := (\<lambda>x. Inl (PythonException ''to_date called inside a udf''))\<rparr>"

text \<open>Lines 144 to 156: the eight \<^verbatim>\<open>withColumn\<close> calls, in the order of the source.\<close>

definition time_columns :: "engine \<Rightarrow> dataframe \<Rightarrow> error + dataframe" where
  "time_columns eng log_df =
     and_then (with_column log_df ''timestamp'' TimestampType (get_timestamp eng) ''ts'') (\<lambda>d1.
     and_then (with_column d1 ''start_time'' TimestampType (get_datetime eng) ''ts'') (\<lambda>d2.
     and_then (with_column d2 ''hour'' IntegerType (F_hour eng) ''timestamp'') (\<lambda>d3.
     and_then (with_column d3 ''day'' IntegerType (F_dayofweek eng) ''timestamp'') (\<lambda>d4.
     and_then (with_column d4 ''week'' IntegerType (F_weekofyear eng) ''timestamp'') (\<lambda>d5.
     and_then (with_column d5 ''month'' IntegerType (F_month eng) ''timestamp'') (\<lambda>d6.
     and_then (with_column d6 ''year'' IntegerType (F_year eng) ''timestamp'') (\<lambda>d7.
     with_column d7 ''weekday'' IntegerType (F_dayofweek eng) ''timestamp'')))))))"

definition time_table :: "dataframe \<Rightarrow> error + dataframe" where
  "time_table log_df =
     select log_df [''start_time'', ''hour'', ''day'', ''week'', ''month'', ''year'', ''weekday'']"

text \<open>
  The query of lines 171 to 187. Every qualified name must resolve in its view. The rows
  are the distinct tuples over the triples \<open>(lt, st, tt)\<close> for which both join conditions
  are true.
\<close>

definition songplays_row ::
  "dataframe \<Rightarrow> dataframe \<Rightarrow> dataframe \<Rightarrow> val list \<Rightarrow> val list \<Rightarrow> val list \<Rightarrow> val list" where
  "songplays_row lt st tt l s t =
     map (cell (schema lt) l)
       [''start_time'', ''userId'', ''level'', ''sessionId'', ''location'', ''userAgent''] @
     map (cell (schema st) s) [''song_id'', ''artist_id''] @
     map (cell (schema tt) t) [''year'', ''month'']"

definition songplays_join ::
  "dataframe \<Rightarrow> dataframe \<Rightarrow> dataframe \<Rightarrow> val list list \<Rightarrow> val list list \<Rightarrow> val list list
     \<Rightarrow> val list list" where
  "songplays_join lt st tt ls ss ts =
     remdups (concat (map (\<lambda>l.
       concat (map (\<lambda>s.
         if sql_eq (cell (schema st) s ''artist_name'') (cell (schema lt) l ''artist'') = Some True
         then concat (map (\<lambda>t.
           if sql_eq (cell (schema tt) t ''start_time'') (cell (schema lt) l ''start_time'') = Some True
           then [songplays_row lt st tt l s t]
           else []) ts)
         else []) ss)) ls))"

definition unresolved :: "dataframe \<Rightarrow> string list \<Rightarrow> string list" where
  "unresolved df cols = filter (\<lambda>c. col_index (schema df) c = None) cols"

definition songplays_sql :: "dataframe \<Rightarrow> dataframe \<Rightarrow> dataframe \<Rightarrow> error + dataframe" where
  "songplays_sql lt st tt =
     (case unresolved lt [''start_time'', ''userId'', ''level'', ''sessionId'', ''location'',
                          ''userAgent'', ''artist''] @
           unresolved st [''song_id'', ''artist_id'', ''artist_name''] @
           unresolved tt [''year'', ''month'', ''start_time''] of
        c # _ \<Rightarrow> Inl (AnalysisException c)
      | [] \<Rightarrow>
          Inr \<lparr>schema =
                 map (field_of (schema lt))
                   [''start_time'', ''userId'', ''level'', ''sessionId'', ''location'',
                    ''userAgent''] @
                 map (field_of (schema st)) [''song_id'', ''artist_id''] @
                 map (field_of (schema tt)) [''year'', ''month''],
               rows =
                 (case rows lt of Inl e \<Rightarrow> Inl e | Inr ls \<Rightarrow>
                 (case rows st of Inl e \<Rightarrow> Inl e | Inr ss \<Rightarrow>
                 (case rows tt of Inl e \<Rightarrow> Inl e | Inr ts \<Rightarrow>
                    Inr (songplays_join lt st tt ls ss ts))))\<rparr>)"

text \<open>
  \<^verbatim>\<open>monotonically_increasing_id()\<close>: a 64-bit value with the index of the partition
  shifted left by 33 bits, plus the position of the row within its partition, counted
  from 0.
\<close>

definition monotonically_increasing_id :: "nat \<Rightarrow> nat \<Rightarrow> 64 word" where
  "monotonically_increasing_id p j = push_bit 33 (word_of_nat p) + word_of_nat j"

definition number_rows :: "struct_type \<Rightarrow> string \<Rightarrow> val list list list \<Rightarrow> val list list" where
  "number_rows sch c parts =
     concat (map (\<lambda>(p, part).
       map (\<lambda>(j, r). put_cell sch c r (VLong (sint (monotonically_increasing_id p j))))
         (enumerate 0 part))
       (enumerate 0 parts))"

definition with_songplay_id :: "engine \<Rightarrow> dataframe \<Rightarrow> dataframe" where
  "with_songplay_id eng df =
     \<lparr>schema = put_field (schema df) ''songplay_id'' LongType,
      rows = on_rows (\<lambda>rs. number_rows (schema df) ''songplay_id'' (partitions_of eng rs)) (rows df)\<rparr>"

definition songplays_table :: "engine \<Rightarrow> dataframe \<Rightarrow> dataframe \<Rightarrow> dataframe \<Rightarrow> error + dataframe" where
  "songplays_table eng log_df song_df time_df =
     and_then (songplays_sql log_df song_df time_df) (\<lambda>sp. Inr (with_songplay_id eng sp))"

text \<open>\<^verbatim>\<open>process_log_data\<close>, line by line.\<close>

definition process_log_data ::
  "engine \<Rightarrow> files \<Rightarrow> string \<Rightarrow> string \<Rightarrow> store \<Rightarrow> error option \<times> store" where
  "process_log_data eng fs input_data output_data st =
     (case read_json fs (log_data_path input_data) (Some log_data_schema) of
        Inl e \<Rightarrow> (Some e, st)
      | Inr log_df0 \<Rightarrow>
     (case next_song log_df0 of
        Inl e \<Rightarrow> (Some e, st)
      | Inr log_df \<Rightarrow>
     (case users_table log_df of
        Inl e \<Rightarrow> (Some e, st)
      | Inr users \<Rightarrow>
     (case write_parquet users [] (output_data @ ''users_table.parquet'') st of
        Inl e \<Rightarrow> (Some e, st)
      | Inr st1 \<Rightarrow>
     (case time_columns eng log_df of
        Inl e \<Rightarrow> (Some e, st1)
      | Inr log_df' \<Rightarrow>
     (case time_table log_df' of
        Inl e \<Rightarrow> (Some e, st1)
      | Inr time_df \<Rightarrow>
     (case write_parquet time_df [''year'', ''month''] (output_data @ ''time_table.parquet'') st1 of
        Inl e \<Rightarrow> (Some e, st1)
      | Inr st2 \<Rightarrow>
     (case read_json fs (song_data_path input_data) None of
        Inl e \<Rightarrow> (Some e, st2)
      | Inr song_df \<Rightarrow>
     (case songplays_table eng log_df' song_df time_df of
        Inl e \<Rightarrow> (Some e, st2)
      | Inr songplays \<Rightarrow>
     (case write_parquet songplays [''year'', ''month'']
             (output_data @ ''songplays_table.parquet'') st2 of
        Inl e \<Rightarrow> (Some e, st2)
      | Inr st3 \<Rightarrow> (None, st3)))))))))))"

text \<open>
  The three tables of the log pipeline as functions of the dataframe read at line 117
  (and, for \<open>songplays\<close>, of the dataframe read at line 165): the values of the source's
  variables \<^verbatim>\<open>users_table\<close>, \<^verbatim>\<open>time_table\<close> and \<^verbatim>\<open>songplays_table\<close>.
\<close>

definition read_log :: "val list list \<Rightarrow> dataframe" where
  "read_log rs = \<lparr>schema = log_data_schema, rows = Inr rs\<rparr>"

definition users_of :: "dataframe \<Rightarrow> error + dataframe" where
  "users_of log_df0 = and_then (next_song log_df0) users_table"

definition derived_of :: "engine \<Rightarrow> dataframe \<Rightarrow> error + dataframe" where
  "derived_of eng log_df0 = and_then (next_song log_df0) (time_columns eng)"

definition time_of :: "engine \<Rightarrow> dataframe \<Rightarrow> error + dataframe" where
  "time_of eng log_df0 = and_then (derived_of eng log_df0) time_table"

definition songplays_of :: "engine \<Rightarrow> dataframe \<Rightarrow> dataframe \<Rightarrow> error + dataframe" where
  "songplays_of eng log_df0 song_df =
     and_then (derived_of eng log_df0) (\<lambda>log_df'.
     and_then (time_table log_df') (\<lambda>time_df.
     songplays_table eng log_df' song_df time_df))"

text \<open>
  What lines 144 to 156 compute for one record of the filtered log, read off the eight
  calls: the record with eight cells appended. The lemmas below relate it to
  \<open>time_columns\<close>.
\<close>

definition derived_schema :: struct_type where
  "derived_schema =
     log_data_schema @
     [(''timestamp'', TimestampType), (''start_time'', TimestampType),
      (''hour'', IntegerType), (''day'', IntegerType), (''week'', IntegerType),
      (''month'', IntegerType), (''year'', IntegerType), (''weekday'', IntegerType)]"

definition derive_row :: "engine \<Rightarrow> val list \<Rightarrow> error + val list" where
  "derive_row eng r =
     and_then (get_timestamp eng (cell log_data_schema r ''ts'')) (\<lambda>t.
     and_then (get_datetime eng (cell log_data_schema r ''ts'')) (\<lambda>sd.
     and_then (F_hour eng t) (\<lambda>h.
     and_then (F_dayofweek eng t) (\<lambda>d.
     and_then (F_weekofyear eng t) (\<lambda>w.
     and_then (F_month eng t) (\<lambda>m.
     and_then (F_year eng t) (\<lambda>y.
     and_then (F_dayofweek eng t) (\<lambda>wd.
     Inr (r @ [t, sd, h, d, w, m, y, wd])))))))))"

definition is_next_song :: "val list \<Rightarrow> bool" where
  "is_next_song r = (cell log_data_schema r ''page'' = VStr ''NextSong'')"

section \<open>Concrete inputs\<close>

text \<open>
  A log record as the reader yields it under \<open>log_data_schema\<close> (one cell per declared
  field, in the order of the schema), a song record under \<open>song_data_schema\<close>, and an
  engine \<open>eng_utc\<close>: UTC, every result in one partition, and a udf body
  \<^verbatim>\<open>F.to_date(x)\<close> that returns the timestamp of its argument. The last is not how
  a worker behaves (see \<open>on_worker\<close>): \<open>eng_utc\<close> only shows that the hypotheses of the
  statements made for every engine can be met; the runs of the program with a
  \<^verbatim>\<open>NextSong\<close> record are those on \<open>on_worker eng_utc\<close>.
\<close>

definition log_row :: "val \<Rightarrow> val \<Rightarrow> val \<Rightarrow> val \<Rightarrow> val \<Rightarrow> val list" where
  "log_row artist page ts userId level =
     [artist, VStr ''Logged In'', VStr ''Ada'', VStr ''F'', VLong 0, VStr ''Lin'',
      VDouble ''180.5'', level, VStr ''LA'', VStr ''PUT'', page, VDouble ''1.5e12'',
      VLong 1, VStr ''T1'', VLong 200, ts, VStr ''UA'', userId]"

definition song_row :: "val list" where
  "song_row =
     [VStr ''S1'', VStr ''2000'', VDouble ''180.5'', VStr ''A1'', VStr ''Artist X'',
      VNull, VNull, VNull]"

definition eng_utc :: engine where
  "eng_utc =
     \<lparr>to_date_in_udf = (\<lambda>v. case v of VLong ms \<Rightarrow> Inr (VTimestamp (ms div 1000)) | _ \<Rightarrow> Inr VNull),
      utc_offset = (\<lambda>s. 0),
      partitions_of = (\<lambda>rs. [rs])\<rparr>"

text \<open>
  The song source as schema inference sees it: once with the fields of a full song
  record, once for files whose records carry only \<^verbatim>\<open>song_id\<close>.
\<close>

definition song_df_full :: dataframe where
  "song_df_full =
     \<lparr>schema = [(''artist_id'', StringType), (''artist_name'', StringType),
                (''duration'', DoubleType), (''song_id'', StringType),
                (''title'', StringType), (''year'', LongType)],
      rows = Inr [[VStr ''A1'', VStr ''Artist X'', VDouble ''180.5'', VStr ''S1'',
                   VStr ''T1'', VLong 2000],
                  [VStr ''A1'', VStr ''Artist X'', VDouble ''180.5'', VStr ''S1'',
                   VStr ''T1'', VLong 2000]]\<rparr>"

definition song_df_ids :: dataframe where
  "song_df_ids = \<lparr>schema = [(''song_id'', StringType)], rows = Inr [[VStr ''S1'']]\<rparr>"

definition demo_files :: "dataframe \<Rightarrow> val list list \<Rightarrow> files" where
  "demo_files song_inferred log_rows =
     [song_data_path ''in/'' \<mapsto> \<lparr>parsed = (\<lambda>s. [song_row]), inferred = song_inferred\<rparr>,
      log_data_path ''in/'' \<mapsto>
        \<lparr>parsed = (\<lambda>s. log_rows),
         inferred = \<lparr>schema = log_data_schema, rows = Inr log_rows\<rparr>\<rparr>]"

definition old_table :: table where
  "old_table = \<lparr>partition_by = [], columns = [(''userId'', StringType)], content = [[VStr ''U0'']]\<rparr>"

definition store_with_users :: store where
  "store_with_users = [''out/users_table.parquet'' \<mapsto> old_table]"

definition users_df_demo :: dataframe where
  "users_df_demo = \<lparr>schema = [(''userId'', StringType)], rows = Inr [[VStr ''U1'']]\<rparr>"

definition next_song_row :: "val list" where
  "next_song_row =
     log_row (VStr ''Artist X'') (VStr ''NextSong'') (VLong 946684800000) (VStr ''U1'')
       (VStr ''free'')"

definition home_row :: "val list" where
  "home_row = log_row VNull (VStr ''Home'') (VLong 946684800000) (VStr ''U2'') (VStr ''free'')"

definition null_page_row :: "val list" where
  "null_page_row =
     log_row (VStr ''Artist X'') VNull (VLong 946684800000) (VStr ''U3'') (VStr ''paid'')"

text \<open>
  The dataframe of line 156 and the time table of line 158 for the single record
  \<open>next_song_row\<close> under \<open>eng_utc\<close>: 946684800 is 2000-01-01 00:00:00 UTC, a Saturday in
  ISO week 52 of 1999.
\<close>

definition derived_demo :: dataframe where
  "derived_demo =
     \<lparr>schema = derived_schema,
      rows = Inr [next_song_row @
                  [VTimestamp 946684800, VTimestamp 946684800, VInt 0, VInt 7, VInt 52,
                   VInt 1, VInt 2000, VInt 7]]\<rparr>"

definition time_demo :: dataframe where
  "time_demo =
     \<lparr>schema = [(''start_time'', TimestampType), (''hour'', IntegerType),
                (''day'', IntegerType), (''week'', IntegerType), (''month'', IntegerType),
                (''year'', IntegerType), (''weekday'', IntegerType)],
      rows = Inr [[VTimestamp 946684800, VInt 0, VInt 7, VInt 52, VInt 1, VInt 2000,
                   VInt 7]]\<rparr>"

text \<open>
  Two plays at the same instant by two users: the dataframe of line 156, its time table
  (one row per play, the two rows equal) and the result of the query of lines 171 to 187
  against \<open>song_df_full\<close>.
\<close>

definition paid_row :: "val list" where
  "paid_row =
     log_row (VStr ''Artist X'') (VStr ''NextSong'') (VLong 946684800000) (VStr ''U4'')
       (VStr ''paid'')"

definition derived_two :: dataframe where
  "derived_two =
     \<lparr>schema = derived_schema,
      rows = Inr [next_song_row @
                  [VTimestamp 946684800, VTimestamp 946684800, VInt 0, VInt 7, VInt 52,
                   VInt 1, VInt 2000, VInt 7],
                  paid_row @
                  [VTimestamp 946684800, VTimestamp 946684800, VInt 0, VInt 7, VInt 52,
                   VInt 1, VInt 2000, VInt 7]]\<rparr>"

definition time_two :: dataframe where
  "time_two =
     \<lparr>schema = [(''start_time'', TimestampType), (''hour'', IntegerType),
                (''day'', IntegerType), (''week'', IntegerType), (''month'', IntegerType),
                (''year'', IntegerType), (''weekday'', IntegerType)],
      rows = Inr [[VTimestamp 946684800, VInt 0, VInt 7, VInt 52, VInt 1, VInt 2000, VInt 7],
                  [VTimestamp 946684800, VInt 0, VInt 7, VInt 52, VInt 1, VInt 2000,
                   VInt 7]]\<rparr>"

definition joined_rows :: "val list list" where
  "joined_rows =
     [[VTimestamp 946684800, VStr ''U1'', VStr ''free'', VLong 1, VStr ''LA'', VStr ''UA'',
       VStr ''S1'', VStr ''A1'', VInt 2000, VInt 1],
      [VTimestamp 946684800, VStr ''U4'', VStr ''paid'', VLong 1, VStr ''LA'', VStr ''UA'',
       VStr ''S1'', VStr ''A1'', VInt 2000, VInt 1]]"

definition joined_two :: dataframe where
  "joined_two =
     \<lparr>schema = [(''start_time'', TimestampType), (''userId'', StringType),
                (''level'', StringType), (''sessionId'', LongType),
                (''location'', StringType), (''userAgent'', StringType),
                (''song_id'', StringType), (''artist_id'', StringType),
                (''year'', IntegerType), (''month'', IntegerType)],
      rows = Inr joined_rows\<rparr>"

text \<open>
  Files whose song records carry only \<^verbatim>\<open>song_id\<close>: read under a declared schema, such
  a record has its \<^verbatim>\<open>song_id\<close> and null in every other declared field; read without a
  schema, the dataframe has the one column the reader infers.
\<close>

definition song_id_only :: json_source where
  "song_id_only =
     \<lparr>parsed = (\<lambda>s. [map (\<lambda>(n, t). if n = ''song_id'' then VStr ''S1'' else VNull) s]),
      inferred = song_df_ids\<rparr>"

definition song_id_only_files :: "val list list \<Rightarrow> files" where
  "song_id_only_files log_rows =
     [song_data_path ''in/'' \<mapsto> song_id_only,
      log_data_path ''in/'' \<mapsto>
        \<lparr>parsed = (\<lambda>s. log_rows),
         inferred = \<lparr>schema = log_data_schema, rows = Inr log_rows\<rparr>\<rparr>]"

section \<open>Lemmas on the dataframe operations\<close>

lemma sql_eq_str: "(sql_eq v (VStr s) = Some True) = (v = VStr s)"
  by (auto simp: sql_eq_def)

lemma col_index_page: "col_index log_data_schema ''page'' = Some 10"
  by (simp add: log_data_schema_def)

lemma fst_field_of: "fst (field_of sch c) = c"
  by (simp add: field_of_def split: option.splits)

lemma col_index_Some: "col_index sch c = Some i \<Longrightarrow> i < length sch \<and> fst (sch ! i) = c"
proof (induction sch arbitrary: i)
  case Nil
  then show ?case by simp
next
  case (Cons f fs)
  obtain n t where f: "f = (n, t)" by (cases f)
  show ?case
  proof (cases "n = c")
    case True
    with Cons.prems f show ?thesis by simp
  next
    case False
    with Cons.prems f obtain j where j: "col_index fs c = Some j" "i = Suc j" by auto
    from Cons.IH[OF j(1)] j(2) show ?thesis by simp
  qed
qed

lemma col_index_None: "(col_index sch c = None) = (c \<notin> fst ` set sch)"
proof (induction sch)
  case Nil
  then show ?case by simp
next
  case (Cons f fs)
  obtain n t where f: "f = (n, t)" by (cases f)
  from Cons.IH show ?case by (simp add: f)
qed

lemma select_rows:
  assumes "select df cols = Inr t"
  shows "schema t = map (field_of (schema df)) cols"
    and "rows t = on_rows (map (\<lambda>r. map (cell (schema df) r) cols)) (rows df)"
  using assms by (auto simp: select_def split: list.splits)

text \<open>A selected column is read back from the projected row under the projected schema.\<close>

lemma cell_select:
  assumes "c \<in> set cols"
  shows "cell (map (field_of sch) cols) (map f cols) c = f c"
proof -
  have "c \<in> fst ` set (map (field_of sch) cols)"
    using assms fst_field_of by (force simp: image_iff)
  then obtain i where i: "col_index (map (field_of sch) cols) c = Some i"
    using col_index_None[of "map (field_of sch) cols" c] by auto
  from col_index_Some[OF i] have len: "i < length cols"
    by simp
  from col_index_Some[OF i] have "fst (map (field_of sch) cols ! i) = c"
    by blast
  with len have "cols ! i = c"
    by (simp add: fst_field_of)
  with i len show ?thesis by (simp add: cell_def)
qed

lemma next_song_read_log:
  "next_song (read_log rs) =
     Inr (read_log (filter (\<lambda>r. cell log_data_schema r ''page'' = VStr ''NextSong'') rs))"
  by (simp add: next_song_def read_log_def filter_df_def on_rows_def sql_eq_str col_index_page)

lemma next_song_drop:
  assumes "cell log_data_schema r ''page'' \<noteq> VStr ''NextSong''"
  shows "next_song (read_log (xs @ r # ys)) = next_song (read_log (xs @ ys))"
  using assms by (simp add: next_song_read_log)

lemma users_of_read_log:
  "users_of (read_log rs) =
     Inr \<lparr>schema = [(''firstName'', StringType), (''lastName'', StringType),
                     (''gender'', StringType), (''level'', StringType),
                     (''userId'', StringType)],
          rows = Inr (map (\<lambda>r. map (cell log_data_schema r)
                       [''firstName'', ''lastName'', ''gender'', ''level'', ''userId''])
                     (filter (\<lambda>r. cell log_data_schema r ''page'' = VStr ''NextSong'') rs))\<rparr>"
  unfolding users_of_def next_song_read_log and_then_def
  by (simp add: users_table_def select_def read_log_def on_rows_def log_data_schema_def
      field_of_def)

lemma songs_table_declared_schema:
  "songs_table \<lparr>schema = song_data_schema, rows = rs\<rparr> = Inl (AnalysisException ''title'')"
  by (simp add: songs_table_def select_def song_data_schema_def)

section \<open>Lemmas on the output store\<close>

lemma write_parquet_Inr:
  assumes "write_parquet df parts path st = Inr st'"
  shows "path \<notin> dom st"
    and "\<exists>rs. rows df = Inr rs \<and>
           st' = st(path \<mapsto> \<lparr>partition_by = parts, columns = schema df, content = rs\<rparr>)"
  using assms by (auto simp: write_parquet_def split: if_splits list.splits sum.splits)

lemma write_parquet_keeps:
  assumes "write_parquet df parts path st = Inr st'" and "st p = Some t"
  shows "st' p = Some t"
proof -
  from write_parquet_Inr[OF assms(1)] obtain u where
    "path \<notin> dom st" and st': "st' = st(path \<mapsto> u)" by blast
  with assms(2) have "p \<noteq> path" by blast
  with st' assms(2) show ?thesis by simp
qed

lemma process_song_data_keeps:
  assumes "st p = Some t"
  shows "snd (process_song_data fs i out st) p = Some t"
  using assms unfolding process_song_data_def
  by (auto split: sum.splits dest: write_parquet_keeps)

lemma process_log_data_keeps:
  assumes "st p = Some t"
  shows "snd (process_log_data eng fs i out st) p = Some t"
  using assms unfolding process_log_data_def
  by (auto split: sum.splits dest: write_parquet_keeps)

lemma process_log_data_users_exists:
  assumes "st (out @ ''users_table.parquet'') = Some t" and "fs (log_data_path i) = Some src"
  shows "process_log_data eng fs i out st =
           (Some (PathAlreadyExists (out @ ''users_table.parquet'')), st)"
proof -
  let ?kept = "filter (\<lambda>r. cell log_data_schema r ''page'' = VStr ''NextSong'')
                 (parsed src log_data_schema)"
  have rd: "read_json fs (log_data_path i) (Some log_data_schema) =
          Inr (read_log (parsed src log_data_schema))"
    using assms(2) by (simp add: read_json_def read_log_def)
  have us: "write_parquet u [] (out @ ''users_table.parquet'') st =
              Inl (PathAlreadyExists (out @ ''users_table.parquet''))" for u
    using assms(1) by (simp add: write_parquet_def dom_def)
  have "\<exists>u. users_of (read_log (parsed src log_data_schema)) = Inr u"
    by (simp add: users_of_read_log)
  then obtain u where u: "users_table (read_log ?kept) = Inr u"
    by (auto simp: users_of_def next_song_read_log and_then_def)
  show ?thesis
    unfolding process_log_data_def
    by (simp add: rd next_song_read_log u us)
qed

section \<open>The song pipeline: claims\<close>

text \<open>
  C2. The claim asks for one \<open>songs\<close> row per \<open>song_id\<close>, carrying the record's
  fields. Line 69 projects \<^verbatim>\<open>title\<close>, which the schema declared at lines 42 to 51 does
  not have: on the dataframe of line 54, whatever its rows, the projection raises. So
  \<^verbatim>\<open>process_song_data\<close> fails on every input, either at the read or at line 69, and
  leaves the store as it was: no songs row is ever written.
\<close>

theorem songs_table_never_written:
  "songs_table \<lparr>schema = song_data_schema, rows = rs\<rparr> = Inl (AnalysisException ''title'') \<and>
   (fst (process_song_data fs input_data output_data st) = Some (AnalysisException ''title'') \<or>
    fst (process_song_data fs input_data output_data st) =
      Some (PathDoesNotExist (song_data_path input_data))) \<and>
   snd (process_song_data fs input_data output_data st) = st"
proof (cases "fs (song_data_path input_data)")
  case None
  then show ?thesis
    by (simp add: process_song_data_def read_json_def songs_table_declared_schema)
next
  case (Some src)
  then show ?thesis
    by (simp add: process_song_data_def read_json_def songs_table_declared_schema)
qed

text \<open>
  C3. The claim says that projecting \<open>num_songs\<close>, a field that is not on the declared
  song schema, succeeds and yields null. On the dataframe read under the declared schema,
  whatever its rows, the projection of line 75 raises.
\<close>

theorem artists_table_num_songs_unresolved:
  "artists_table \<lparr>schema = song_data_schema, rows = rs\<rparr> =
     Inl (AnalysisException ''num_songs'')"
  by (simp add: artists_table_def select_def song_data_schema_def)

section \<open>The log pipeline: the users table and the output locations\<close>

text \<open>
  C5, as amended. The claim says that \<open>userId\<close> is unique in \<open>users\<close>. Lines 134 to 137
  filter and project and nothing else: \<open>users\<close> has one row per \<open>NextSong\<close> record, in
  the order read, with that record's five fields, so the \<open>userId\<close> column of \<open>users\<close> is
  the \<open>userId\<close> column of the \<open>NextSong\<close> records, repetitions included.
\<close>

theorem users_one_row_per_next_song_record:
  "\<exists>u. users_of (read_log rs) = Inr u \<and>
     rows u =
       Inr (map (\<lambda>r. map (cell log_data_schema r)
              [''firstName'', ''lastName'', ''gender'', ''level'', ''userId''])
            (filter is_next_song rs)) \<and>
     map (\<lambda>q. cell (schema u) q ''userId'')
       (map (\<lambda>r. map (cell log_data_schema r)
              [''firstName'', ''lastName'', ''gender'', ''level'', ''userId''])
            (filter is_next_song rs)) =
     map (\<lambda>r. cell log_data_schema r ''userId'') (filter is_next_song rs)"
proof -
  let ?cols = "[''firstName'', ''lastName'', ''gender'', ''level'', ''userId'']"
  let ?u = "\<lparr>schema = [(''firstName'', StringType), (''lastName'', StringType),
                     (''gender'', StringType), (''level'', StringType),
                     (''userId'', StringType)],
             rows = Inr (map (\<lambda>r. map (cell log_data_schema r) ?cols)
                     (filter is_next_song rs))\<rparr>"
  have nx: "is_next_song = (\<lambda>r. cell log_data_schema r ''page'' = VStr ''NextSong'')"
    by (rule ext) (simp add: is_next_song_def)
  have u: "users_of (read_log rs) = Inr ?u"
    by (simp add: users_of_read_log nx)
  have "cell (schema ?u) (map (cell log_data_schema r) ?cols) ''userId'' =
        cell log_data_schema r ''userId''" for r
    by (simp add: cell_def)
  then have "map (\<lambda>q. cell (schema ?u) q ''userId'')
       (map (\<lambda>r. map (cell log_data_schema r) ?cols) (filter is_next_song rs)) =
     map (\<lambda>r. cell log_data_schema r ''userId'') (filter is_next_song rs)"
    by (simp add: comp_def)
  with u show ?thesis by (intro exI[of _ ?u]) simp
qed

text \<open>
  C5, the claim as stated fails: two \<open>NextSong\<close> records of user U1 (one at level free,
  one at level paid) give two distinct rows of \<open>users\<close> with the same \<open>userId\<close>.
\<close>

theorem users_counterexample:
  "users_of (read_log
     [log_row (VStr ''Artist X'') (VStr ''NextSong'') (VLong 946684800000) (VStr ''U1'')
        (VStr ''free''),
      log_row (VStr ''Artist X'') (VStr ''NextSong'') (VLong 946684801000) (VStr ''U1'')
        (VStr ''paid'')]) =
     Inr \<lparr>schema = [(''firstName'', StringType), (''lastName'', StringType),
                     (''gender'', StringType), (''level'', StringType),
                     (''userId'', StringType)],
          rows = Inr [[VStr ''Ada'', VStr ''Lin'', VStr ''F'', VStr ''free'', VStr ''U1''],
                      [VStr ''Ada'', VStr ''Lin'', VStr ''F'', VStr ''paid'', VStr ''U1'']]\<rparr>"
  unfolding users_of_read_log
  by (simp add: log_row_def log_data_schema_def cell_def)

text \<open>
  C4, as amended. The claim says that a write to a location that already holds content
  succeeds and overwrites. No write of the source sets a save mode, so each runs in the
  default mode: a write to a location that holds content raises and stores nothing; a
  write that succeeds was to a location that held nothing and changes that location
  only; whatever a location held before a pipeline ran, it still holds afterwards; and
  with content already at the users location the log pipeline ends at line 140 with the
  store as it was.
\<close>

theorem write_keeps_prior_content:
  "(st path = Some t \<longrightarrow>
      write_parquet df parts path st = Inl (PathAlreadyExists path)) \<and>
   (write_parquet df parts path st = Inr st' \<longrightarrow>
      st path = None \<and>
      (\<exists>rs. rows df = Inr rs \<and>
         st' = st(path \<mapsto> \<lparr>partition_by = parts, columns = schema df, content = rs\<rparr>))) \<and>
   (st p = Some t \<longrightarrow>
      snd (process_song_data fs i out st) p = Some t \<and>
      snd (process_log_data eng fs i out st) p = Some t) \<and>
   (st (out @ ''users_table.parquet'') = Some t \<and> fs (log_data_path i) = Some src \<longrightarrow>
      process_log_data eng fs i out st =
        (Some (PathAlreadyExists (out @ ''users_table.parquet'')), st))"
proof (intro conjI impI)
  assume "st path = Some t"
  then show "write_parquet df parts path st = Inl (PathAlreadyExists path)"
    by (simp add: write_parquet_def dom_def)
next
  assume w: "write_parquet df parts path st = Inr st'"
  from write_parquet_Inr(1)[OF w] show "st path = None" by (simp add: dom_def)
  from write_parquet_Inr(2)[OF w]
  show "\<exists>rs. rows df = Inr rs \<and>
         st' = st(path \<mapsto> \<lparr>partition_by = parts, columns = schema df, content = rs\<rparr>)" .
next
  assume "st p = Some t"
  then show "snd (process_song_data fs i out st) p = Some t"
    by (rule process_song_data_keeps)
next
  assume "st p = Some t"
  then show "snd (process_log_data eng fs i out st) p = Some t"
    by (rule process_log_data_keeps)
next
  assume "st (out @ ''users_table.parquet'') = Some t \<and> fs (log_data_path i) = Some src"
  then show "process_log_data eng fs i out st =
        (Some (PathAlreadyExists (out @ ''users_table.parquet'')), st)"
    using process_log_data_users_exists by blast
qed

theorem write_keeps_prior_content_witness:
  "store_with_users ''out/users_table.parquet'' = Some old_table \<and>
   write_parquet users_df_demo [] ''out/users_table.parquet'' store_with_users =
     Inl (PathAlreadyExists ''out/users_table.parquet'') \<and>
   snd (process_song_data (demo_files song_df_full [next_song_row]) ''in/'' ''out/''
          store_with_users) ''out/users_table.parquet'' = Some old_table \<and>
   snd (process_log_data eng_utc (demo_files song_df_full [next_song_row]) ''in/'' ''out/''
          store_with_users) ''out/users_table.parquet'' = Some old_table \<and>
   process_log_data eng_utc (demo_files song_df_full [next_song_row]) ''in/'' ''out/''
       store_with_users =
     (Some (PathAlreadyExists ''out/users_table.parquet''), store_with_users) \<and>
   write_parquet users_df_demo [] ''out/users_table.parquet'' Map.empty =
     Inr [''out/users_table.parquet'' \<mapsto>
            \<lparr>partition_by = [], columns = [(''userId'', StringType)],
             content = [[VStr ''U1'']]\<rparr>] \<and>
   (Map.empty :: store) ''out/users_table.parquet'' = None"
proof -
  let ?fs = "demo_files song_df_full [next_song_row]"
  let ?src = "\<lparr>parsed = (\<lambda>s. [next_song_row]),
               inferred = \<lparr>schema = log_data_schema, rows = Inr [next_song_row]\<rparr>\<rparr>"
  let ?new = "[''out/users_table.parquet'' \<mapsto>
            \<lparr>partition_by = [], columns = [(''userId'', StringType)],
             content = [[VStr ''U1'']]\<rparr>]"
  have h1: "store_with_users ''out/users_table.parquet'' = Some old_table"
    by (simp add: store_with_users_def)
  have h2: "?fs (log_data_path ''in/'') = Some ?src"
    by (simp add: demo_files_def)
  have h3: "write_parquet users_df_demo [] ''out/users_table.parquet'' Map.empty = Inr ?new"
    by (simp add: write_parquet_def users_df_demo_def)
  note a = write_keeps_prior_content
    [of store_with_users "''out/users_table.parquet''" old_table users_df_demo "[]" ?new
        "''out/users_table.parquet''" ?fs "''in/''" "''out/''" eng_utc ?src]
  note b = write_keeps_prior_content
    [of Map.empty "''out/users_table.parquet''" old_table users_df_demo "[]" ?new
        "''out/users_table.parquet''" ?fs "''in/''" "''out/''" eng_utc ?src]
  from a h1 h2 have
    "write_parquet users_df_demo [] ''out/users_table.parquet'' store_with_users =
       Inl (PathAlreadyExists ''out/users_table.parquet'')"
    "snd (process_song_data ?fs ''in/'' ''out/'' store_with_users)
       ''out/users_table.parquet'' = Some old_table"
    "snd (process_log_data eng_utc ?fs ''in/'' ''out/'' store_with_users)
       ''out/users_table.parquet'' = Some old_table"
    "process_log_data eng_utc ?fs ''in/'' ''out/'' store_with_users =
       (Some (PathAlreadyExists ''out/users_table.parquet''), store_with_users)"
    by simp_all
  moreover from b h3 have "(Map.empty :: store) ''out/users_table.parquet'' = None"
    by simp
  ultimately show ?thesis using h1 h3 by simp
qed

text \<open>
  C4, the claim as stated fails: with content already at \<^verbatim>\<open>out/users_table.parquet\<close>,
  the write of line 140 raises, the log pipeline ends there and the location still
  holds the old content.
\<close>

theorem overwrite_counterexample:
  "process_log_data eng_utc (demo_files song_df_full [next_song_row]) ''in/'' ''out/''
       store_with_users =
     (Some (PathAlreadyExists ''out/users_table.parquet''), store_with_users) \<and>
   store_with_users ''out/users_table.parquet'' = Some old_table \<and>
   write_parquet users_df_demo [] ''out/users_table.parquet'' store_with_users =
     Inl (PathAlreadyExists ''out/users_table.parquet'')"
proof -
  have h1: "store_with_users ''out/users_table.parquet'' = Some old_table"
    by (simp add: store_with_users_def)
  have h2: "demo_files song_df_full [next_song_row] (log_data_path ''in/'') =
      Some \<lparr>parsed = (\<lambda>s. [next_song_row]),
            inferred = \<lparr>schema = log_data_schema, rows = Inr [next_song_row]\<rparr>\<rparr>"
    by (simp add: demo_files_def)
  have h3: "write_parquet users_df_demo [] ''out/users_table.parquet'' store_with_users =
     Inl (PathAlreadyExists ''out/users_table.parquet'')"
    using h1 by (simp add: write_parquet_def dom_def)
  have "process_log_data eng_utc (demo_files song_df_full [next_song_row]) ''in/'' ''out/''
       store_with_users =
     (Some (PathAlreadyExists (''out/'' @ ''users_table.parquet'')), store_with_users)"
    using process_log_data_users_exists
      [where st = store_with_users and out = "''out/''" and t = old_table
         and fs = "demo_files song_df_full [next_song_row]" and i = "''in/''"
         and eng = eng_utc
         and src = "\<lparr>parsed = (\<lambda>s. [next_song_row]),
            inferred = \<lparr>schema = log_data_schema, rows = Inr [next_song_row]\<rparr>\<rparr>"]
      h1 h2
    by simp
  with h1 h3 show ?thesis by simp
qed

section \<open>The log pipeline: the filter on the page\<close>

text \<open>
  C6. A log record whose \<open>page\<close> is not \<^verbatim>\<open>NextSong\<close> contributes nothing: with the record
  or without it, wherever it stands among the records read, \<open>users\<close>, \<open>time\<close> and
  \<open>songplays\<close> are the same (and so is a failure, if the pipeline fails).
\<close>

theorem non_next_song_contributes_nothing:
  assumes "cell log_data_schema r ''page'' \<noteq> VStr ''NextSong''"
  shows "users_of (read_log (xs @ r # ys)) = users_of (read_log (xs @ ys)) \<and>
         time_of eng (read_log (xs @ r # ys)) = time_of eng (read_log (xs @ ys)) \<and>
         songplays_of eng (read_log (xs @ r # ys)) song_df =
           songplays_of eng (read_log (xs @ ys)) song_df"
  unfolding users_of_def time_of_def derived_of_def songplays_of_def next_song_drop[OF assms]
  by simp

theorem non_next_song_contributes_nothing_witness:
  "cell log_data_schema home_row ''page'' \<noteq> VStr ''NextSong'' \<and>
   users_of (read_log ([next_song_row] @ home_row # [next_song_row])) =
     users_of (read_log ([next_song_row] @ [next_song_row])) \<and>
   time_of eng_utc (read_log ([next_song_row] @ home_row # [next_song_row])) =
     time_of eng_utc (read_log ([next_song_row] @ [next_song_row])) \<and>
   songplays_of eng_utc (read_log ([next_song_row] @ home_row # [next_song_row])) song_df_full =
     songplays_of eng_utc (read_log ([next_song_row] @ [next_song_row])) song_df_full"
proof -
  have h: "cell log_data_schema home_row ''page'' \<noteq> VStr ''NextSong''"
    by (simp add: cell_def log_data_schema_def home_row_def log_row_def)
  from non_next_song_contributes_nothing[OF h] h show ?thesis by blast
qed

text \<open>
  C10. A log record whose \<open>page\<close> is null contributes nothing either: the comparison of
  line 134 is then null, not true, and the filter keeps a row only when it is true.
\<close>

theorem null_page_contributes_nothing:
  assumes "cell log_data_schema r ''page'' = VNull"
  shows "sql_eq (cell log_data_schema r ''page'') (VStr ''NextSong'') = None \<and>
         users_of (read_log (xs @ r # ys)) = users_of (read_log (xs @ ys)) \<and>
         time_of eng (read_log (xs @ r # ys)) = time_of eng (read_log (xs @ ys)) \<and>
         songplays_of eng (read_log (xs @ r # ys)) song_df =
           songplays_of eng (read_log (xs @ ys)) song_df"
proof -
  from assms have ne: "cell log_data_schema r ''page'' \<noteq> VStr ''NextSong''" by simp
  have "sql_eq (cell log_data_schema r ''page'') (VStr ''NextSong'') = None"
    using assms by (simp add: sql_eq_def)
  then show ?thesis
    unfolding users_of_def time_of_def derived_of_def songplays_of_def next_song_drop[OF ne]
    by simp
qed

theorem null_page_contributes_nothing_witness:
  "cell log_data_schema null_page_row ''page'' = VNull \<and>
   sql_eq (cell log_data_schema null_page_row ''page'') (VStr ''NextSong'') = None \<and>
   users_of (read_log ([next_song_row] @ null_page_row # [])) =
     users_of (read_log ([next_song_row] @ [])) \<and>
   time_of eng_utc (read_log ([next_song_row] @ null_page_row # [])) =
     time_of eng_utc (read_log ([next_song_row] @ [])) \<and>
   songplays_of eng_utc (read_log ([next_song_row] @ null_page_row # [])) song_df_full =
     songplays_of eng_utc (read_log ([next_song_row] @ [])) song_df_full"
proof -
  have h: "cell log_data_schema null_page_row ''page'' = VNull"
    by (simp add: cell_def log_data_schema_def null_page_row_def log_row_def)
  from null_page_contributes_nothing[OF h] h show ?thesis by blast
qed


section \<open>The log pipeline: derived columns\<close>

lemma traverse_Inr_iff: "(traverse f xs = Inr ys) = list_all2 (\<lambda>x y. f x = Inr y) xs ys"
proof (induction xs arbitrary: ys)
  case Nil
  then show ?case by auto
next
  case (Cons x xs)
  show ?case
  proof (cases "f x")
    case (Inl e)
    then show ?thesis by (auto simp: list_all2_Cons1)
  next
    case (Inr y)
    then have "(traverse f (x # xs) = Inr ys) = (\<exists>zs. traverse f xs = Inr zs \<and> ys = y # zs)"
      by (auto split: sum.splits)
    also have "\<dots> = (\<exists>zs. list_all2 (\<lambda>x y. f x = Inr y) xs zs \<and> ys = y # zs)"
      using Cons.IH by simp
    also have "\<dots> = list_all2 (\<lambda>x y. f x = Inr y) (x # xs) ys"
      using Inr by (auto simp: list_all2_Cons1)
    finally show ?thesis .
  qed
qed

lemma list_all2_restrict:
  "list_all2 P xs ys \<Longrightarrow> \<forall>x\<in>set xs. Q x \<Longrightarrow> list_all2 (\<lambda>x y. Q x \<and> P x y) xs ys"
  by (induction rule: list_all2_induct) auto

lemma list_all2_right_set:
  "list_all2 P xs ys \<Longrightarrow> y \<in> set ys \<Longrightarrow> \<exists>x\<in>set xs. P x y"
  by (induction rule: list_all2_induct) auto

lemma with_column_schema:
  assumes "with_column df c t f arg = Inr df'"
  shows "schema df' = put_field (schema df) c t"
  using assms by (auto simp: with_column_def split: option.splits)

lemma with_column_rows:
  assumes "with_column df c t f arg = Inr df'" and "rows df' = Inr rs'"
  shows "\<exists>rs. rows df = Inr rs \<and>
           list_all2 (\<lambda>r r'. \<exists>v. f (cell (schema df) r arg) = Inr v \<and>
                                 r' = put_cell (schema df) c r v) rs rs'"
proof -
  let ?step = "\<lambda>r. case f (cell (schema df) r arg) of
                      Inl e \<Rightarrow> Inl e
                    | Inr v \<Rightarrow> Inr (put_cell (schema df) c r v)"
  from assms(1) have "rows df' =
      (case rows df of Inl e \<Rightarrow> Inl e | Inr rs \<Rightarrow> traverse ?step rs)"
    by (auto simp: with_column_def split: option.splits)
  with assms(2) obtain rs where rs: "rows df = Inr rs" and tr: "traverse ?step rs = Inr rs'"
    by (auto split: sum.splits)
  from tr have "list_all2 (\<lambda>r r'. ?step r = Inr r') rs rs'"
    by (simp add: traverse_Inr_iff)
  then have "list_all2 (\<lambda>r r'. \<exists>v. f (cell (schema df) r arg) = Inr v \<and>
                                 r' = put_cell (schema df) c r v) rs rs'"
    by (rule list_all2_mono) (auto split: sum.splits)
  with rs show ?thesis by blast
qed


lemma list_all2_OO: "list_all2 R xs ys \<Longrightarrow> list_all2 S ys zs \<Longrightarrow> list_all2 (R OO S) xs zs"
  by (auto simp: list.rel_compp)

lemma cell_ts_stage:
  "length r = 18 \<Longrightarrow> cell (take 18 derived_schema) r ''ts'' = cell log_data_schema r ''ts''"
  "length r = 18 \<Longrightarrow> cell (take 19 derived_schema) (r @ [t]) ''ts'' = cell log_data_schema r ''ts''"
  by (simp_all add: cell_def derived_schema_def log_data_schema_def nth_append)

lemma cell_timestamp_stage:
  "length r = 18 \<Longrightarrow> cell (take 20 derived_schema) (r @ [t, a]) ''timestamp'' = t"
  "length r = 18 \<Longrightarrow> cell (take 21 derived_schema) (r @ [t, a, b]) ''timestamp'' = t"
  "length r = 18 \<Longrightarrow> cell (take 22 derived_schema) (r @ [t, a, b, c]) ''timestamp'' = t"
  "length r = 18 \<Longrightarrow> cell (take 23 derived_schema) (r @ [t, a, b, c, d]) ''timestamp'' = t"
  "length r = 18 \<Longrightarrow> cell (take 24 derived_schema) (r @ [t, a, b, c, d, e]) ''timestamp'' = t"
  "length r = 18 \<Longrightarrow> cell (take 25 derived_schema) (r @ [t, a, b, c, d, e, f]) ''timestamp'' = t"
  by (simp_all add: cell_def derived_schema_def log_data_schema_def nth_append)

lemma put_cell_stage:
  "put_cell (take 18 derived_schema) ''timestamp'' r v = r @ [v]"
  "put_cell (take 19 derived_schema) ''start_time'' r v = r @ [v]"
  "put_cell (take 20 derived_schema) ''hour'' r v = r @ [v]"
  "put_cell (take 21 derived_schema) ''day'' r v = r @ [v]"
  "put_cell (take 22 derived_schema) ''week'' r v = r @ [v]"
  "put_cell (take 23 derived_schema) ''month'' r v = r @ [v]"
  "put_cell (take 24 derived_schema) ''year'' r v = r @ [v]"
  "put_cell (take 25 derived_schema) ''weekday'' r v = r @ [v]"
  by (simp_all add: put_cell_def derived_schema_def log_data_schema_def)

lemma put_field_stage:
  "put_field (take 18 derived_schema) ''timestamp'' TimestampType = take 19 derived_schema"
  "put_field (take 19 derived_schema) ''start_time'' TimestampType = take 20 derived_schema"
  "put_field (take 20 derived_schema) ''hour'' IntegerType = take 21 derived_schema"
  "put_field (take 21 derived_schema) ''day'' IntegerType = take 22 derived_schema"
  "put_field (take 22 derived_schema) ''week'' IntegerType = take 23 derived_schema"
  "put_field (take 23 derived_schema) ''month'' IntegerType = take 24 derived_schema"
  "put_field (take 24 derived_schema) ''year'' IntegerType = take 25 derived_schema"
  "put_field (take 25 derived_schema) ''weekday'' IntegerType = derived_schema"
  by (simp_all add: put_field_def derived_schema_def log_data_schema_def)

lemma derive_steps:
  assumes len: "length r = 18"
    and 1: "\<exists>v. get_timestamp eng (cell (take 18 derived_schema) r ''ts'') = Inr v \<and>
                r1 = put_cell (take 18 derived_schema) ''timestamp'' r v"
    and 2: "\<exists>v. get_datetime eng (cell (take 19 derived_schema) r1 ''ts'') = Inr v \<and>
                r2 = put_cell (take 19 derived_schema) ''start_time'' r1 v"
    and 3: "\<exists>v. F_hour eng (cell (take 20 derived_schema) r2 ''timestamp'') = Inr v \<and>
                r3 = put_cell (take 20 derived_schema) ''hour'' r2 v"
    and 4: "\<exists>v. F_dayofweek eng (cell (take 21 derived_schema) r3 ''timestamp'') = Inr v \<and>
                r4 = put_cell (take 21 derived_schema) ''day'' r3 v"
    and 5: "\<exists>v. F_weekofyear eng (cell (take 22 derived_schema) r4 ''timestamp'') = Inr v \<and>
                r5 = put_cell (take 22 derived_schema) ''week'' r4 v"
    and 6: "\<exists>v. F_month eng (cell (take 23 derived_schema) r5 ''timestamp'') = Inr v \<and>
                r6 = put_cell (take 23 derived_schema) ''month'' r5 v"
    and 7: "\<exists>v. F_year eng (cell (take 24 derived_schema) r6 ''timestamp'') = Inr v \<and>
                r7 = put_cell (take 24 derived_schema) ''year'' r6 v"
    and 8: "\<exists>v. F_dayofweek eng (cell (take 25 derived_schema) r7 ''timestamp'') = Inr v \<and>
                r8 = put_cell (take 25 derived_schema) ''weekday'' r7 v"
  shows "derive_row eng r = Inr r8"
proof -
  from 1 len obtain t where t: "get_timestamp eng (cell log_data_schema r ''ts'') = Inr t"
    and r1: "r1 = r @ [t]"
    by (auto simp: cell_ts_stage put_cell_stage)
  from 2 len obtain sd where sd: "get_datetime eng (cell log_data_schema r ''ts'') = Inr sd"
    and r2: "r2 = r @ [t, sd]"
    by (auto simp: r1 cell_ts_stage put_cell_stage)
  from 3 len obtain h where h: "F_hour eng t = Inr h" and r3: "r3 = r @ [t, sd, h]"
    by (auto simp: r2 cell_timestamp_stage put_cell_stage)
  from 4 len obtain d where d: "F_dayofweek eng t = Inr d" and r4: "r4 = r @ [t, sd, h, d]"
    by (auto simp: r3 cell_timestamp_stage put_cell_stage)
  from 5 len obtain w where w: "F_weekofyear eng t = Inr w" and r5: "r5 = r @ [t, sd, h, d, w]"
    by (auto simp: r4 cell_timestamp_stage put_cell_stage)
  from 6 len obtain m where m: "F_month eng t = Inr m" and r6: "r6 = r @ [t, sd, h, d, w, m]"
    by (auto simp: r5 cell_timestamp_stage put_cell_stage)
  from 7 len obtain y where y: "F_year eng t = Inr y" and r7: "r7 = r @ [t, sd, h, d, w, m, y]"
    by (auto simp: r6 cell_timestamp_stage put_cell_stage)
  from 8 len obtain wd where wd: "F_dayofweek eng t = Inr wd"
    and r8: "r8 = r @ [t, sd, h, d, w, m, y, wd]"
    by (auto simp: r7 cell_timestamp_stage put_cell_stage)
  from d wd have "wd = d" by simp
  then show ?thesis
    by (simp add: derive_row_def and_then_def t sd h d w m y r8)
qed

lemma time_columns_schema:
  assumes tc: "time_columns eng (read_log rs) = Inr d"
  shows "schema d = derived_schema"
proof -
  from tc obtain d1 d2 d3 d4 d5 d6 d7 where
    w1: "with_column (read_log rs) ''timestamp'' TimestampType (get_timestamp eng) ''ts'' = Inr d1"
    and w2: "with_column d1 ''start_time'' TimestampType (get_datetime eng) ''ts'' = Inr d2"
    and w3: "with_column d2 ''hour'' IntegerType (F_hour eng) ''timestamp'' = Inr d3"
    and w4: "with_column d3 ''day'' IntegerType (F_dayofweek eng) ''timestamp'' = Inr d4"
    and w5: "with_column d4 ''week'' IntegerType (F_weekofyear eng) ''timestamp'' = Inr d5"
    and w6: "with_column d5 ''month'' IntegerType (F_month eng) ''timestamp'' = Inr d6"
    and w7: "with_column d6 ''year'' IntegerType (F_year eng) ''timestamp'' = Inr d7"
    and w8: "with_column d7 ''weekday'' IntegerType (F_dayofweek eng) ''timestamp'' = Inr d"
    by (auto simp: time_columns_def and_then_def split: sum.splits)
  have s0: "schema (read_log rs) = take 18 derived_schema"
    by (simp add: read_log_def derived_schema_def log_data_schema_def)
  have s1: "schema d1 = take 19 derived_schema"
    using with_column_schema[OF w1] by (simp add: s0 put_field_stage)
  have s2: "schema d2 = take 20 derived_schema"
    using with_column_schema[OF w2] by (simp add: s1 put_field_stage)
  have s3: "schema d3 = take 21 derived_schema"
    using with_column_schema[OF w3] by (simp add: s2 put_field_stage)
  have s4: "schema d4 = take 22 derived_schema"
    using with_column_schema[OF w4] by (simp add: s3 put_field_stage)
  have s5: "schema d5 = take 23 derived_schema"
    using with_column_schema[OF w5] by (simp add: s4 put_field_stage)
  have s6: "schema d6 = take 24 derived_schema"
    using with_column_schema[OF w6] by (simp add: s5 put_field_stage)
  have s7: "schema d7 = take 25 derived_schema"
    using with_column_schema[OF w7] by (simp add: s6 put_field_stage)
  show ?thesis
    using with_column_schema[OF w8] by (simp add: s7 put_field_stage)
qed

lemma time_columns_rows:
  assumes wf: "\<forall>r\<in>set rs. length r = 18"
    and tc: "time_columns eng (read_log rs) = Inr d"
    and rd: "rows d = Inr drs"
  shows "list_all2 (\<lambda>r r'. derive_row eng r = Inr r') rs drs"
proof -
  from tc obtain d1 d2 d3 d4 d5 d6 d7 where
    w1: "with_column (read_log rs) ''timestamp'' TimestampType (get_timestamp eng) ''ts'' = Inr d1"
    and w2: "with_column d1 ''start_time'' TimestampType (get_datetime eng) ''ts'' = Inr d2"
    and w3: "with_column d2 ''hour'' IntegerType (F_hour eng) ''timestamp'' = Inr d3"
    and w4: "with_column d3 ''day'' IntegerType (F_dayofweek eng) ''timestamp'' = Inr d4"
    and w5: "with_column d4 ''week'' IntegerType (F_weekofyear eng) ''timestamp'' = Inr d5"
    and w6: "with_column d5 ''month'' IntegerType (F_month eng) ''timestamp'' = Inr d6"
    and w7: "with_column d6 ''year'' IntegerType (F_year eng) ''timestamp'' = Inr d7"
    and w8: "with_column d7 ''weekday'' IntegerType (F_dayofweek eng) ''timestamp'' = Inr d"
    by (auto simp: time_columns_def and_then_def split: sum.splits)
  have s0: "schema (read_log rs) = take 18 derived_schema"
    by (simp add: read_log_def derived_schema_def log_data_schema_def)
  have s1: "schema d1 = take 19 derived_schema"
    using with_column_schema[OF w1] by (simp add: s0 put_field_stage)
  have s2: "schema d2 = take 20 derived_schema"
    using with_column_schema[OF w2] by (simp add: s1 put_field_stage)
  have s3: "schema d3 = take 21 derived_schema"
    using with_column_schema[OF w3] by (simp add: s2 put_field_stage)
  have s4: "schema d4 = take 22 derived_schema"
    using with_column_schema[OF w4] by (simp add: s3 put_field_stage)
  have s5: "schema d5 = take 23 derived_schema"
    using with_column_schema[OF w5] by (simp add: s4 put_field_stage)
  have s6: "schema d6 = take 24 derived_schema"
    using with_column_schema[OF w6] by (simp add: s5 put_field_stage)
  have s7: "schema d7 = take 25 derived_schema"
    using with_column_schema[OF w7] by (simp add: s6 put_field_stage)
  from with_column_rows[OF w8 rd] obtain x7 where x7: "rows d7 = Inr x7"
    and l8: "list_all2 (\<lambda>r r'. \<exists>v. F_dayofweek eng (cell (take 25 derived_schema) r ''timestamp'') = Inr v \<and>
                r' = put_cell (take 25 derived_schema) ''weekday'' r v) x7 drs"
    unfolding s7 by blast
  from with_column_rows[OF w7 x7] obtain x6 where x6: "rows d6 = Inr x6"
    and l7: "list_all2 (\<lambda>r r'. \<exists>v. F_year eng (cell (take 24 derived_schema) r ''timestamp'') = Inr v \<and>
                r' = put_cell (take 24 derived_schema) ''year'' r v) x6 x7"
    unfolding s6 by blast
  from with_column_rows[OF w6 x6] obtain x5 where x5: "rows d5 = Inr x5"
    and l6: "list_all2 (\<lambda>r r'. \<exists>v. F_month eng (cell (take 23 derived_schema) r ''timestamp'') = Inr v \<and>
                r' = put_cell (take 23 derived_schema) ''month'' r v) x5 x6"
    unfolding s5 by blast
  from with_column_rows[OF w5 x5] obtain x4 where x4: "rows d4 = Inr x4"
    and l5: "list_all2 (\<lambda>r r'. \<exists>v. F_weekofyear eng (cell (take 22 derived_schema) r ''timestamp'') = Inr v \<and>
                r' = put_cell (take 22 derived_schema) ''week'' r v) x4 x5"
    unfolding s4 by blast
  from with_column_rows[OF w4 x4] obtain x3 where x3: "rows d3 = Inr x3"
    and l4: "list_all2 (\<lambda>r r'. \<exists>v. F_dayofweek eng (cell (take 21 derived_schema) r ''timestamp'') = Inr v \<and>
                r' = put_cell (take 21 derived_schema) ''day'' r v) x3 x4"
    unfolding s3 by blast
  from with_column_rows[OF w3 x3] obtain x2 where x2: "rows d2 = Inr x2"
    and l3: "list_all2 (\<lambda>r r'. \<exists>v. F_hour eng (cell (take 20 derived_schema) r ''timestamp'') = Inr v \<and>
                r' = put_cell (take 20 derived_schema) ''hour'' r v) x2 x3"
    unfolding s2 by blast
  from with_column_rows[OF w2 x2] obtain x1 where x1: "rows d1 = Inr x1"
    and l2: "list_all2 (\<lambda>r r'. \<exists>v. get_datetime eng (cell (take 19 derived_schema) r ''ts'') = Inr v \<and>
                r' = put_cell (take 19 derived_schema) ''start_time'' r v) x1 x2"
    unfolding s1 by blast
  from with_column_rows[OF w1 x1] obtain x0 where x0: "rows (read_log rs) = Inr x0"
    and l1: "list_all2 (\<lambda>r r'. \<exists>v. get_timestamp eng (cell (take 18 derived_schema) r ''ts'') = Inr v \<and>
                r' = put_cell (take 18 derived_schema) ''timestamp'' r v) x0 x1"
    unfolding s0 by blast
  from x0 have "x0 = rs" by (simp add: read_log_def)
  with l1 have l1': "list_all2 (\<lambda>r r'. \<exists>v. get_timestamp eng (cell (take 18 derived_schema) r ''ts'') = Inr v \<and>
                r' = put_cell (take 18 derived_schema) ''timestamp'' r v) rs x1"
    by simp
  note chain = list_all2_OO[OF list_all2_OO[OF list_all2_OO[OF list_all2_OO[OF
      list_all2_OO[OF list_all2_OO[OF list_all2_OO[OF l1' l2] l3] l4] l5] l6] l7] l8]
  from list_all2_restrict[OF chain wf] show ?thesis
    by (rule list_all2_mono) (elim conjE relcomppE, rule derive_steps)
qed


lemma derived_of_read_log:
  "derived_of eng (read_log rs) = time_columns eng (read_log (filter is_next_song rs))"
  unfolding derived_of_def next_song_read_log and_then_def is_next_song_def by simp

lemma length_log_data_schema: "length log_data_schema = 18"
  by (simp add: log_data_schema_def)

lemma hour_range: "0 \<le> (s :: int) div 3600 mod 24 \<and> s div 3600 mod 24 \<le> 23"
  by simp

lemma month_of_days_range: "1 \<le> month_of_days n \<and> month_of_days n \<le> 12"
  by (simp add: month_of_days_def Let_def)

lemma weeks_in_year_cases: "weeks_in_year y = 52 \<or> weeks_in_year y = 53"
  by (simp add: weeks_in_year_def Let_def)

lemma week_of_days_range: "1 \<le> week_of_days n \<and> week_of_days n \<le> 53"
proof -
  have a: "1 \<le> weeks_in_year (year_of_days n - 1) \<and> weeks_in_year (year_of_days n - 1) \<le> 53"
    using weeks_in_year_cases[of "year_of_days n - 1"] by auto
  have b: "weeks_in_year (year_of_days n) \<le> 53"
    using weeks_in_year_cases[of "year_of_days n"] by auto
  show ?thesis
    using a b by (auto simp: week_of_days_def Let_def)
qed

text \<open>The shape of a derived record: the source's cells, then the eight derived ones.\<close>

lemma derive_row_shape:
  assumes "derive_row eng r = Inr r'"
  shows "\<exists>s sd. get_datetime eng (cell log_data_schema r ''ts'') = Inr sd \<and>
           r' = r @ [VTimestamp s, sd,
                     VInt (local_seconds eng s div 3600 mod 24),
                     VInt ((local_seconds eng s div 86400 + 4) mod 7 + 1),
                     VInt (week_of_days (local_seconds eng s div 86400)),
                     VInt (month_of_days (local_seconds eng s div 86400)),
                     VInt (year_of_days (local_seconds eng s div 86400)),
                     VInt ((local_seconds eng s div 86400 + 4) mod 7 + 1)]"
proof -
  from assms obtain t sd where t: "get_timestamp eng (cell log_data_schema r ''ts'') = Inr t"
    and sd: "get_datetime eng (cell log_data_schema r ''ts'') = Inr sd"
    by (auto simp: derive_row_def and_then_def split: sum.splits)
  from t obtain s where s: "t = VTimestamp s"
    by (auto simp: get_timestamp_def Let_def split: val.splits if_splits)
  from assms show ?thesis
    by (auto simp: derive_row_def and_then_def t sd s F_hour_def F_dayofweek_def
        F_weekofyear_def F_month_def F_year_def)
qed

lemma cell_derived_schema:
  assumes "length r = 18"
  shows "cell derived_schema (r @ [t, sd, h, d, w, m, y, wd]) ''start_time'' = sd"
    and "cell derived_schema (r @ [t, sd, h, d, w, m, y, wd]) ''hour'' = h"
    and "cell derived_schema (r @ [t, sd, h, d, w, m, y, wd]) ''week'' = w"
    and "cell derived_schema (r @ [t, sd, h, d, w, m, y, wd]) ''month'' = m"
  using assms by (simp_all add: cell_def derived_schema_def log_data_schema_def nth_append)

lemma time_table_cell:
  assumes "time_table d = Inr t"
    and "c \<in> set [''start_time'', ''hour'', ''day'', ''week'', ''month'', ''year'', ''weekday'']"
  shows "cell (schema t)
           (map (cell (schema d) l)
              [''start_time'', ''hour'', ''day'', ''week'', ''month'', ''year'', ''weekday'']) c =
         cell (schema d) l c"
  using assms(1) cell_select[OF assms(2), of "schema d" "cell (schema d) l"]
  by (simp add: time_table_def select_rows(1))

lemma time_table_rows:
  assumes "time_table d = Inr t"
  shows "rows t =
         on_rows (map (\<lambda>l. map (cell (schema d) l)
              [''start_time'', ''hour'', ''day'', ''week'', ''month'', ''year'', ''weekday'']))
           (rows d)"
  using assms by (simp add: time_table_def select_rows(2))

section \<open>The log pipeline: start_time\<close>

lemma with_column_rows_eq:
  assumes "with_column df c t f arg = Inr df'"
  shows "rows df' =
         (case rows df of
            Inl e \<Rightarrow> Inl e
          | Inr rs \<Rightarrow>
              traverse (\<lambda>r. case f (cell (schema df) r arg) of
                               Inl e \<Rightarrow> Inl e
                             | Inr v \<Rightarrow> Inr (put_cell (schema df) c r v)) rs)"
  using assms by (auto simp: with_column_def split: option.splits)

lemma with_column_keeps_failure:
  assumes "with_column df c t f arg = Inr df'" and "rows df = Inl e"
  shows "rows df' = Inl e"
  using with_column_rows_eq[OF assms(1)] assms(2) by simp

lemma with_column_nonempty:
  assumes "with_column df c t f arg = Inr df'" and "rows df \<noteq> Inr []"
  shows "rows df' \<noteq> Inr []"
proof
  assume e: "rows df' = Inr []"
  from with_column_rows[OF assms(1) e] obtain rs where "rows df = Inr rs"
    and "list_all2 (\<lambda>r r'. \<exists>v. f (cell (schema df) r arg) = Inr v \<and>
                                 r' = put_cell (schema df) c r v) rs []"
    by blast
  then have "rows df = Inr []" by simp
  with assms(2) show False by simp
qed

lemma with_column_raises:
  assumes "with_column df c t f arg = Inr df'"
    and "\<forall>x. \<exists>e. f x = Inl e"
    and "rows df \<noteq> Inr []"
  shows "\<exists>e. rows df' = Inl e"
proof (cases "rows df")
  case (Inl e)
  with with_column_keeps_failure[OF assms(1)] show ?thesis by blast
next
  case (Inr rs)
  with assms(3) obtain r rs' where rs: "rs = r # rs'" by (cases rs) auto
  from assms(2) obtain e where "f (cell (schema df) r arg) = Inl e" by blast
  with with_column_rows_eq[OF assms(1)] Inr rs show ?thesis by simp
qed

text \<open>On a worker, the plan of line 156 fails as soon as one record passed the filter.\<close>

lemma time_columns_on_worker:
  assumes tc: "time_columns (on_worker eng) df = Inr d"
    and ne: "rows df \<noteq> Inr []"
  shows "\<exists>e. rows d = Inl e"
proof -
  from tc obtain d1 d2 d3 d4 d5 d6 d7 where
    w1: "with_column df ''timestamp'' TimestampType (get_timestamp (on_worker eng)) ''ts'' = Inr d1"
    and w2: "with_column d1 ''start_time'' TimestampType (get_datetime (on_worker eng)) ''ts'' = Inr d2"
    and w3: "with_column d2 ''hour'' IntegerType (F_hour (on_worker eng)) ''timestamp'' = Inr d3"
    and w4: "with_column d3 ''day'' IntegerType (F_dayofweek (on_worker eng)) ''timestamp'' = Inr d4"
    and w5: "with_column d4 ''week'' IntegerType (F_weekofyear (on_worker eng)) ''timestamp'' = Inr d5"
    and w6: "with_column d5 ''month'' IntegerType (F_month (on_worker eng)) ''timestamp'' = Inr d6"
    and w7: "with_column d6 ''year'' IntegerType (F_year (on_worker eng)) ''timestamp'' = Inr d7"
    and w8: "with_column d7 ''weekday'' IntegerType (F_dayofweek (on_worker eng)) ''timestamp'' = Inr d"
    by (auto simp: time_columns_def and_then_def split: sum.splits)
  have "\<forall>x. \<exists>e. get_datetime (on_worker eng) x = Inl e"
    by (simp add: get_datetime_def on_worker_def)
  from with_column_raises[OF w2 this with_column_nonempty[OF w1 ne]]
  obtain e where "rows d2 = Inl e" by blast
  from with_column_keeps_failure[OF w8 with_column_keeps_failure[OF w7
        with_column_keeps_failure[OF w6 with_column_keeps_failure[OF w5
        with_column_keeps_failure[OF w4 with_column_keeps_failure[OF w3 this]]]]]]
  show ?thesis by blast
qed

lemma write_parquet_failed_plan:
  assumes "rows df = Inl e"
  shows "\<exists>e'. write_parquet df parts path st = Inl e'"
  using assms by (simp add: write_parquet_def split: list.splits)

lemma time_table_write_on_worker:
  assumes "time_columns (on_worker eng) df = Inr d" and "rows df \<noteq> Inr []"
    and "time_table d = Inr t"
  shows "\<exists>e. write_parquet t parts path st = Inl e"
proof -
  from time_columns_on_worker[OF assms(1,2)] obtain e where "rows d = Inl e" by blast
  with time_table_rows[OF assms(3)] have "rows t = Inl e"
    by (simp add: on_rows_def)
  then show ?thesis by (rule write_parquet_failed_plan)
qed

lemma process_log_data_on_worker:
  assumes src: "fs (log_data_path input_data) = Some src"
    and ns: "\<exists>r\<in>set (parsed src log_data_schema). is_next_song r"
  shows "\<exists>e st'. process_log_data (on_worker eng) fs input_data output_data st = (Some e, st') \<and>
           (st' = st \<or> (\<exists>u. st' = st(output_data @ ''users_table.parquet'' \<mapsto> u)))"
proof -
  let ?rs = "parsed src log_data_schema"
  let ?L = "read_log (filter (\<lambda>r. cell log_data_schema r ''page'' = VStr ''NextSong'') ?rs)"
  have r1: "read_json fs (log_data_path input_data) (Some log_data_schema) = Inr (read_log ?rs)"
    by (simp add: read_json_def src read_log_def)
  have r2: "next_song (read_log ?rs) = Inr ?L"
    by (rule next_song_read_log)
  from ns have ne: "rows ?L \<noteq> Inr []"
    by (auto simp: read_log_def is_next_song_def filter_empty_conv)
  show ?thesis
  proof (cases "users_table ?L")
    case (Inl e)
    then show ?thesis
      unfolding process_log_data_def by (simp add: r1 r2)
  next
    case u: (Inr users)
    show ?thesis
    proof (cases "write_parquet users [] (output_data @ ''users_table.parquet'') st")
      case (Inl e)
      then show ?thesis
        unfolding process_log_data_def by (simp add: r1 r2 u)
    next
      case w: (Inr st1)
      from write_parquet_Inr(2)[OF w] obtain v where
        st1: "st1 = st(output_data @ ''users_table.parquet'' \<mapsto> v)"
        by blast
      show ?thesis
      proof (cases "time_columns (on_worker eng) ?L")
        case (Inl e)
        then have "process_log_data (on_worker eng) fs input_data output_data st = (Some e, st1)"
          unfolding process_log_data_def by (simp add: r1 r2 u w)
        with st1 show ?thesis by blast
      next
        case tc: (Inr d)
        show ?thesis
        proof (cases "time_table d")
          case (Inl e)
          then have "process_log_data (on_worker eng) fs input_data output_data st = (Some e, st1)"
            unfolding process_log_data_def by (simp add: r1 r2 u w tc)
          with st1 show ?thesis by blast
        next
          case tt: (Inr t)
          from time_table_write_on_worker[OF tc ne tt] obtain e where
            "write_parquet t [''year'', ''month''] (output_data @ ''time_table.parquet'') st1 = Inl e"
            by blast
          then have "process_log_data (on_worker eng) fs input_data output_data st = (Some e, st1)"
            unfolding process_log_data_def by (simp add: r1 r2 u w tc tt)
          with st1 show ?thesis by blast
        qed
      qed
    qed
  qed
qed

lemma process_log_data_on_worker_one_play:
  "process_log_data (on_worker eng_utc) (demo_files song_df_full [next_song_row]) ''in/'' ''out/''
       Map.empty =
     (Some (PythonException ''to_date called inside a udf''),
      [''out/users_table.parquet'' \<mapsto>
         \<lparr>partition_by = [],
            columns = [(''firstName'', StringType), (''lastName'', StringType),
                       (''gender'', StringType), (''level'', StringType),
                       (''userId'', StringType)],
            content = [[VStr ''Ada'', VStr ''Lin'', VStr ''F'', VStr ''free'', VStr ''U1'']]\<rparr>])"
proof -
  let ?fs = "demo_files song_df_full [next_song_row]"
  have r1: "read_json ?fs (log_data_path ''in/'') (Some log_data_schema) =
      Inr (read_log [next_song_row])"
    by (simp add: read_json_def demo_files_def song_data_path_def log_data_path_def read_log_def)
  have r2: "next_song (read_log [next_song_row]) = Inr (read_log [next_song_row])"
    by code_simp
  have u: "users_table (read_log [next_song_row]) =
      Inr \<lparr>schema = [(''firstName'', StringType), (''lastName'', StringType),
                       (''gender'', StringType), (''level'', StringType),
                       (''userId'', StringType)],
           rows = Inr [[VStr ''Ada'', VStr ''Lin'', VStr ''F'', VStr ''free'', VStr ''U1'']]\<rparr>"
    by code_simp
  have tc: "time_columns (on_worker eng_utc) (read_log [next_song_row]) =
      Inr \<lparr>schema = derived_schema,
           rows = Inl (PythonException ''to_date called inside a udf'')\<rparr>"
    by code_simp
  have tt: "time_table \<lparr>schema = derived_schema,
           rows = Inl (PythonException ''to_date called inside a udf'')\<rparr> =
      Inr \<lparr>schema = [(''start_time'', TimestampType), (''hour'', IntegerType),
                (''day'', IntegerType), (''week'', IntegerType), (''month'', IntegerType),
                (''year'', IntegerType), (''weekday'', IntegerType)],
           rows = Inl (PythonException ''to_date called inside a udf'')\<rparr>"
    by code_simp
  show ?thesis
    unfolding process_log_data_def
    by (simp add: r1 r2 u tc tt write_parquet_def)
qed

text \<open>
  C1. The claim takes \<^verbatim>\<open>start_time\<close> to be \<^verbatim>\<open>ts\<close> converted to a timestamp of seconds
  precision, the same in the time table and as the join key of songplays. In the source
  that conversion (line 143) feeds the column \<^verbatim>\<open>timestamp\<close>; \<^verbatim>\<open>start_time\<close> is the udf
  of line 147, \<^verbatim>\<open>F.to_date(x)\<close>, which raises on a worker. So whenever the log holds a
  \<^verbatim>\<open>NextSong\<close> record, \<^verbatim>\<open>process_log_data\<close> fails, and the locations of the time table
  and of songplays are left as they were: no \<^verbatim>\<open>start_time\<close> is stored and no join is
  made. This holds whatever the time zone, the layout, the other files and the store.
\<close>

theorem start_time_udf_fails_the_run:
  assumes "fs (log_data_path input_data) = Some src"
    and "\<exists>r\<in>set (parsed src log_data_schema). is_next_song r"
  shows "(\<exists>e. fst (process_log_data (on_worker eng) fs input_data output_data st) = Some e) \<and>
         snd (process_log_data (on_worker eng) fs input_data output_data st)
             (output_data @ ''time_table.parquet'') =
           st (output_data @ ''time_table.parquet'') \<and>
         snd (process_log_data (on_worker eng) fs input_data output_data st)
             (output_data @ ''songplays_table.parquet'') =
           st (output_data @ ''songplays_table.parquet'')"
proof -
  from process_log_data_on_worker[where fs = fs and input_data = input_data and src = src
      and eng = eng and output_data = output_data and st = st, OF assms] obtain e st' where
    res: "process_log_data (on_worker eng) fs input_data output_data st = (Some e, st')"
    and st': "st' = st \<or> (\<exists>u. st' = st(output_data @ ''users_table.parquet'' \<mapsto> u))"
    by blast
  from st' have "st' (output_data @ ''time_table.parquet'') =
        st (output_data @ ''time_table.parquet'')"
    and "st' (output_data @ ''songplays_table.parquet'') =
        st (output_data @ ''songplays_table.parquet'')"
    by auto
  with res show ?thesis by simp
qed

theorem start_time_udf_fails_the_run_witness:
  "demo_files song_df_full [next_song_row] (log_data_path ''in/'') =
     Some \<lparr>parsed = (\<lambda>s. [next_song_row]),
           inferred = \<lparr>schema = log_data_schema, rows = Inr [next_song_row]\<rparr>\<rparr> \<and>
   is_next_song next_song_row \<and>
   (\<exists>e. fst (process_log_data (on_worker eng_utc) (demo_files song_df_full [next_song_row])
               ''in/'' ''out/'' Map.empty) = Some e) \<and>
   snd (process_log_data (on_worker eng_utc) (demo_files song_df_full [next_song_row])
          ''in/'' ''out/'' Map.empty) ''out/time_table.parquet'' = None \<and>
   snd (process_log_data (on_worker eng_utc) (demo_files song_df_full [next_song_row])
          ''in/'' ''out/'' Map.empty) ''out/songplays_table.parquet'' = None \<and>
   fst (process_log_data (on_worker eng_utc) (demo_files song_df_full [next_song_row])
          ''in/'' ''out/'' Map.empty) = Some (PythonException ''to_date called inside a udf'')"
proof -
  have h1: "demo_files song_df_full [next_song_row] (log_data_path ''in/'') =
     Some \<lparr>parsed = (\<lambda>s. [next_song_row]),
           inferred = \<lparr>schema = log_data_schema, rows = Inr [next_song_row]\<rparr>\<rparr>"
    by (simp add: demo_files_def)
  have n: "is_next_song next_song_row"
    by code_simp
  then have h2: "\<exists>r\<in>set (parsed \<lparr>parsed = (\<lambda>s. [next_song_row]),
           inferred = \<lparr>schema = log_data_schema, rows = Inr [next_song_row]\<rparr>\<rparr>
        log_data_schema). is_next_song r"
    by simp
  from start_time_udf_fails_the_run
    [where fs = "demo_files song_df_full [next_song_row]" and input_data = "''in/''"
       and src = "\<lparr>parsed = (\<lambda>s. [next_song_row]),
           inferred = \<lparr>schema = log_data_schema, rows = Inr [next_song_row]\<rparr>\<rparr>"
       and eng = eng_utc and output_data = "''out/''" and st = Map.empty, OF h1 h2] h1 n
    process_log_data_on_worker_one_play
  show ?thesis by simp
qed

section \<open>The log pipeline: the calendar fields of the time table\<close>

text \<open>
  C9. For records of the declared width, every row of the time table has an \<^verbatim>\<open>hour\<close>
  between 0 and 23, a \<^verbatim>\<open>month\<close> between 1 and 12 and a \<^verbatim>\<open>week\<close> between 1 and 53;
  none of the three is null.
\<close>

theorem time_table_calendar_ranges:
  assumes "\<forall>r\<in>set rs. length r = length log_data_schema"
    and "time_of eng (read_log rs) = Inr tt"
    and "rows tt = Inr ts"
  shows "\<forall>t\<in>set ts. \<exists>h m w.
           cell (schema tt) t ''hour'' = VInt h \<and> 0 \<le> h \<and> h \<le> 23 \<and>
           cell (schema tt) t ''month'' = VInt m \<and> 1 \<le> m \<and> m \<le> 12 \<and>
           cell (schema tt) t ''week'' = VInt w \<and> 1 \<le> w \<and> w \<le> 53"
proof
  let ?cols = "[''start_time'', ''hour'', ''day'', ''week'', ''month'', ''year'', ''weekday'']"
  fix t
  assume t: "t \<in> set ts"
  from assms(2) obtain lt where lt: "derived_of eng (read_log rs) = Inr lt"
    and tt: "time_table lt = Inr tt"
    by (auto simp: time_of_def and_then_def split: sum.splits)
  from lt have tc: "time_columns eng (read_log (filter is_next_song rs)) = Inr lt"
    by (simp add: derived_of_read_log)
  from assms(1) have wf: "\<forall>r\<in>set (filter is_next_song rs). length r = 18"
    by (simp add: length_log_data_schema)
  have sch: "schema lt = derived_schema"
    by (rule time_columns_schema[OF tc])
  from time_table_rows[OF tt] assms(3) obtain ls where ls: "rows lt = Inr ls"
    and ts: "ts = map (\<lambda>l. map (cell (schema lt) l) ?cols) ls"
    by (auto simp: on_rows_def split: sum.splits)
  from t ts obtain l where l: "l \<in> set ls" and tl: "t = map (cell (schema lt) l) ?cols"
    by auto
  from list_all2_right_set[OF list_all2_restrict[OF time_columns_rows[OF wf tc ls] wf] l]
  obtain r where len: "length r = 18" and dr: "derive_row eng r = Inr l"
    by blast
  from derive_row_shape[OF dr] obtain s sd where
    l': "l = r @ [VTimestamp s, sd,
                     VInt (local_seconds eng s div 3600 mod 24),
                     VInt ((local_seconds eng s div 86400 + 4) mod 7 + 1),
                     VInt (week_of_days (local_seconds eng s div 86400)),
                     VInt (month_of_days (local_seconds eng s div 86400)),
                     VInt (year_of_days (local_seconds eng s div 86400)),
                     VInt ((local_seconds eng s div 86400 + 4) mod 7 + 1)]"
    by blast
  have "cell (schema tt) t ''hour'' = cell (schema lt) l ''hour''"
    unfolding tl by (rule time_table_cell[OF tt]) simp
  then have "cell (schema tt) t ''hour'' = VInt (local_seconds eng s div 3600 mod 24)"
    by (simp add: sch l' cell_derived_schema[OF len])
  moreover have "cell (schema tt) t ''month'' = cell (schema lt) l ''month''"
    unfolding tl by (rule time_table_cell[OF tt]) simp
  then have "cell (schema tt) t ''month'' = VInt (month_of_days (local_seconds eng s div 86400))"
    by (simp add: sch l' cell_derived_schema[OF len])
  moreover have "cell (schema tt) t ''week'' = cell (schema lt) l ''week''"
    unfolding tl by (rule time_table_cell[OF tt]) simp
  then have "cell (schema tt) t ''week'' = VInt (week_of_days (local_seconds eng s div 86400))"
    by (simp add: sch l' cell_derived_schema[OF len])
  ultimately show "\<exists>h m w.
           cell (schema tt) t ''hour'' = VInt h \<and> 0 \<le> h \<and> h \<le> 23 \<and>
           cell (schema tt) t ''month'' = VInt m \<and> 1 \<le> m \<and> m \<le> 12 \<and>
           cell (schema tt) t ''week'' = VInt w \<and> 1 \<le> w \<and> w \<le> 53"
    using hour_range[of "local_seconds eng s"]
      month_of_days_range[of "local_seconds eng s div 86400"]
      week_of_days_range[of "local_seconds eng s div 86400"]
    by simp
qed

theorem time_table_calendar_ranges_witness:
  "length next_song_row = length log_data_schema \<and>
   length home_row = length log_data_schema \<and>
   time_of eng_utc (read_log [next_song_row, home_row]) = Inr time_demo \<and>
   rows time_demo =
     Inr [[VTimestamp 946684800, VInt 0, VInt 7, VInt 52, VInt 1, VInt 2000, VInt 7]] \<and>
   (\<exists>h m w.
      cell (schema time_demo)
        [VTimestamp 946684800, VInt 0, VInt 7, VInt 52, VInt 1, VInt 2000, VInt 7]
        ''hour'' = VInt h \<and> 0 \<le> h \<and> h \<le> 23 \<and>
      cell (schema time_demo)
        [VTimestamp 946684800, VInt 0, VInt 7, VInt 52, VInt 1, VInt 2000, VInt 7]
        ''month'' = VInt m \<and> 1 \<le> m \<and> m \<le> 12 \<and>
      cell (schema time_demo)
        [VTimestamp 946684800, VInt 0, VInt 7, VInt 52, VInt 1, VInt 2000, VInt 7]
        ''week'' = VInt w \<and> 1 \<le> w \<and> w \<le> 53)"
proof -
  have l1: "length next_song_row = length log_data_schema"
    by code_simp
  have l2: "length home_row = length log_data_schema"
    by code_simp
  from l1 l2 have h1: "\<forall>r\<in>set [next_song_row, home_row]. length r = length log_data_schema"
    by simp
  have h2: "time_of eng_utc (read_log [next_song_row, home_row]) = Inr time_demo"
    by code_simp
  have h3: "rows time_demo =
     Inr [[VTimestamp 946684800, VInt 0, VInt 7, VInt 52, VInt 1, VInt 2000, VInt 7]]"
    by (simp add: time_demo_def)
  from time_table_calendar_ranges[OF h1 h2 h3] l1 l2 h2 h3
  show ?thesis by simp
qed


section \<open>The log pipeline: the second read of the song source\<close>

lemma time_columns_empty:
  "time_columns eng (read_log []) = Inr \<lparr>schema = derived_schema, rows = Inr []\<rparr>"
  by (simp add: time_columns_def and_then_def with_column_def put_field_def read_log_def
      log_data_schema_def derived_schema_def)

lemma time_table_empty:
  "time_table \<lparr>schema = derived_schema, rows = Inr []\<rparr> =
     Inr \<lparr>schema = [(''start_time'', TimestampType), (''hour'', IntegerType),
                (''day'', IntegerType), (''week'', IntegerType), (''month'', IntegerType),
                (''year'', IntegerType), (''weekday'', IntegerType)],
          rows = Inr []\<rparr>"
  by (simp add: time_table_def select_def derived_schema_def log_data_schema_def field_of_def
      on_rows_def)

lemma songplays_table_song_id_only:
  "songplays_table eng \<lparr>schema = derived_schema, rows = Inr []\<rparr> song_df_ids
     \<lparr>schema = [(''start_time'', TimestampType), (''hour'', IntegerType),
                (''day'', IntegerType), (''week'', IntegerType), (''month'', IntegerType),
                (''year'', IntegerType), (''weekday'', IntegerType)],
      rows = Inr []\<rparr> =
   Inl (AnalysisException ''artist_id'')"
  by (simp add: songplays_table_def and_then_def songplays_sql_def unresolved_def
      derived_schema_def log_data_schema_def song_df_ids_def)

lemma songplays_table_declared:
  "\<exists>sp. songplays_table eng \<lparr>schema = derived_schema, rows = Inr []\<rparr>
     \<lparr>schema = song_data_schema, rows = Inr srs\<rparr>
     \<lparr>schema = [(''start_time'', TimestampType), (''hour'', IntegerType),
                (''day'', IntegerType), (''week'', IntegerType), (''month'', IntegerType),
                (''year'', IntegerType), (''weekday'', IntegerType)],
      rows = Inr []\<rparr> = Inr sp"
  by (simp add: songplays_table_def and_then_def songplays_sql_def unresolved_def
      derived_schema_def log_data_schema_def song_data_schema_def)

lemma no_next_song:
  assumes "\<forall>r\<in>set rs. \<not> is_next_song r"
  shows "next_song (read_log rs) = Inr (read_log [])"
proof -
  from assms have "filter (\<lambda>r. cell log_data_schema r ''page'' = VStr ''NextSong'') rs = []"
    by (simp add: is_next_song_def filter_empty_conv)
  then show ?thesis by (simp add: next_song_read_log)
qed

lemma process_log_data_song_id_only:
  assumes "\<forall>r\<in>set rs. \<not> is_next_song r"
  shows "fst (process_log_data eng (song_id_only_files rs) ''in/'' ''out/'' Map.empty) =
         Some (AnalysisException ''artist_id'')"
proof -
  have r1: "read_json (song_id_only_files rs) (log_data_path ''in/'') (Some log_data_schema) =
      Inr (read_log rs)"
    by (simp add: read_json_def song_id_only_files_def song_data_path_def log_data_path_def
        read_log_def)
  have r2: "read_json (song_id_only_files rs) (song_data_path ''in/'') None = Inr song_df_ids"
    by (simp add: read_json_def song_id_only_files_def song_data_path_def log_data_path_def
        song_id_only_def)
  obtain u where u: "users_table (read_log []) = Inr u" and us: "rows u = Inr []"
    by (simp add: users_table_def select_def read_log_def log_data_schema_def on_rows_def)
  show ?thesis
    unfolding process_log_data_def
    by (simp add: r1 r2 no_next_song[OF assms] u us time_columns_empty time_table_empty
        songplays_table_song_id_only write_parquet_def)
qed

text \<open>
  C7. The read of line 165 passes no schema, so the join sees the schema the reader infers
  from the files. Take files whose song records carry only \<^verbatim>\<open>song_id\<close> and a log with
  no \<^verbatim>\<open>NextSong\<close> record (so that no udf runs and the outcome is the same on every
  engine): the read of line 165 returns the one inferred column, the query of lines 171 to
  187 does not resolve \<^verbatim>\<open>st.artist_id\<close> and \<^verbatim>\<open>process_log_data\<close> fails; on the same
  files the read under the declared \<open>song_data_schema\<close>, as at line 54, gives a dataframe
  against which the songplays table is produced.
\<close>

theorem song_reread_schema_inferred:
  assumes "\<forall>r\<in>set rs. \<not> is_next_song r"
  shows "read_json (song_id_only_files rs) (song_data_path ''in/'') None = Inr song_df_ids \<and>
         fst (process_log_data eng (song_id_only_files rs) ''in/'' ''out/'' Map.empty) =
           Some (AnalysisException ''artist_id'') \<and>
         (\<exists>song_df sp.
            read_json (song_id_only_files rs) (song_data_path ''in/'') (Some song_data_schema) =
              Inr song_df \<and>
            schema song_df = song_data_schema \<and>
            songplays_of eng (read_log rs) song_df = Inr sp)"
proof -
  have r2: "read_json (song_id_only_files rs) (song_data_path ''in/'') None = Inr song_df_ids"
    by (simp add: read_json_def song_id_only_files_def song_data_path_def log_data_path_def
        song_id_only_def)
  have r3: "read_json (song_id_only_files rs) (song_data_path ''in/'') (Some song_data_schema) =
      Inr \<lparr>schema = song_data_schema, rows = Inr (parsed song_id_only song_data_schema)\<rparr>"
    by (simp add: read_json_def song_id_only_files_def song_data_path_def log_data_path_def)
  from songplays_table_declared[of eng "parsed song_id_only song_data_schema"]
  have "\<exists>sp. songplays_of eng (read_log rs)
      \<lparr>schema = song_data_schema, rows = Inr (parsed song_id_only song_data_schema)\<rparr> = Inr sp"
    by (simp add: songplays_of_def derived_of_def and_then_def no_next_song[OF assms]
        time_columns_empty time_table_empty)
  with r2 r3 process_log_data_song_id_only[OF assms, of eng] show ?thesis
    by simp
qed

theorem song_reread_schema_inferred_witness:
  "\<not> is_next_song home_row \<and> \<not> is_next_song null_page_row \<and>
   read_json (song_id_only_files [home_row, null_page_row]) (song_data_path ''in/'') None =
     Inr song_df_ids \<and>
   schema song_df_ids = [(''song_id'', StringType)] \<and>
   fst (process_log_data (on_worker eng_utc) (song_id_only_files [home_row, null_page_row])
          ''in/'' ''out/'' Map.empty) =
     Some (AnalysisException ''artist_id'') \<and>
   (\<exists>song_df sp.
      read_json (song_id_only_files [home_row, null_page_row]) (song_data_path ''in/'')
          (Some song_data_schema) = Inr song_df \<and>
      schema song_df = song_data_schema \<and>
      songplays_of (on_worker eng_utc) (read_log [home_row, null_page_row]) song_df = Inr sp)"
proof -
  have h1: "\<not> is_next_song home_row"
    by code_simp
  have h2: "\<not> is_next_song null_page_row"
    by code_simp
  from h1 h2 have h: "\<forall>r\<in>set [home_row, null_page_row]. \<not> is_next_song r"
    by simp
  have s: "schema song_df_ids = [(''song_id'', StringType)]"
    by (simp add: song_df_ids_def)
  from song_reread_schema_inferred[OF h, of "on_worker eng_utc"] h1 h2 s show ?thesis
    by blast
qed

section \<open>The log pipeline: songplay_id\<close>

lemma monotonically_increasing_id_unat:
  assumes "p < 2 ^ 31" and "j < 2 ^ 33"
  shows "unat (monotonically_increasing_id p j) = p * 2 ^ 33 + j"
proof -
  have eq: "monotonically_increasing_id p j = word_of_nat (p * 2 ^ 33 + j)"
    by (simp add: monotonically_increasing_id_def push_bit_eq_mult)
  have m: "unat (word_of_nat n :: 64 word) = n mod 2 ^ 64" for n
    by (simp add: unat_of_nat)
  from assms have "p * 2 ^ 33 + j < 2 ^ 64"
    by simp
  then show ?thesis
    by (simp only: eq m mod_less)
qed

lemma monotonically_increasing_id_inj:
  assumes "p < 2 ^ 31" and "j < 2 ^ 33" and "p' < 2 ^ 31" and "j' < 2 ^ 33"
    and "sint (monotonically_increasing_id p j) = sint (monotonically_increasing_id p' j')"
  shows "p = p' \<and> j = j'"
proof -
  from assms(5) have "monotonically_increasing_id p j = monotonically_increasing_id p' j'"
    by (rule signed_word_eqI)
  then have "unat (monotonically_increasing_id p j) = unat (monotonically_increasing_id p' j')"
    by simp
  then have e: "p * 2 ^ 33 + j = p' * 2 ^ 33 + j'"
    by (simp only: monotonically_increasing_id_unat[OF assms(1,2)]
        monotonically_increasing_id_unat[OF assms(3,4)])
  from e have "(p * 2 ^ 33 + j) div 2 ^ 33 = (p' * 2 ^ 33 + j') div 2 ^ 33"
    by simp
  with assms(2,4) have "p = p'" by simp
  with e show ?thesis by simp
qed

text \<open>The ids given out over a layout, partition by partition.\<close>

lemma ids_of_parts_set:
  assumes "\<forall>part\<in>set parts. length part \<le> 2 ^ 33"
    and "x \<in> set (concat (map (\<lambda>(p, part).
            map (\<lambda>j. VLong (sint (monotonically_increasing_id p j))) [0..<length part])
          (enumerate n parts)))"
  shows "\<exists>p j. x = VLong (sint (monotonically_increasing_id p j)) \<and>
           n \<le> p \<and> p < n + length parts \<and> j < 2 ^ 33"
  using assms
proof (induction parts arbitrary: n)
  case Nil
  then show ?case by simp
next
  case (Cons part parts)
  from Cons.prems(2) consider
    (here) "x \<in> (\<lambda>j. VLong (sint (monotonically_increasing_id n j))) ` {0..<length part}"
    | (later) "x \<in> set (concat (map (\<lambda>(p, part).
            map (\<lambda>j. VLong (sint (monotonically_increasing_id p j))) [0..<length part])
          (enumerate (Suc n) parts)))"
    by auto
  then show ?case
  proof cases
    case here
    then obtain j where "j < length part" and "x = VLong (sint (monotonically_increasing_id n j))"
      by auto
    moreover from Cons.prems(1) have "length part \<le> 2 ^ 33" by simp
    ultimately have "x = VLong (sint (monotonically_increasing_id n j)) \<and>
           n \<le> n \<and> n < n + length (part # parts) \<and> j < 2 ^ 33"
      by simp
    then show ?thesis by blast
  next
    case later
    from Cons.prems(1) have "\<forall>part\<in>set parts. length part \<le> 2 ^ 33" by simp
    from Cons.IH[OF this later] obtain p j where
      "x = VLong (sint (monotonically_increasing_id p j))" "Suc n \<le> p"
      "p < Suc n + length parts" "j < 2 ^ 33"
      by blast
    then have "x = VLong (sint (monotonically_increasing_id p j)) \<and>
           n \<le> p \<and> p < n + length (part # parts) \<and> j < 2 ^ 33"
      by simp
    then show ?thesis by blast
  qed
qed

lemma ids_of_parts_distinct:
  assumes "n + length parts \<le> 2 ^ 31"
    and "\<forall>part\<in>set parts. length part \<le> 2 ^ 33"
  shows "distinct (concat (map (\<lambda>(p, part).
            map (\<lambda>j. VLong (sint (monotonically_increasing_id p j))) [0..<length part])
          (enumerate n parts)))"
  using assms
proof (induction parts arbitrary: n)
  case Nil
  then show ?case by simp
next
  case (Cons part parts)
  let ?rest = "concat (map (\<lambda>(p, part).
            map (\<lambda>j. VLong (sint (monotonically_increasing_id p j))) [0..<length part])
          (enumerate (Suc n) parts))"
  from Cons.prems have n: "n < 2 ^ 31" and lp: "length part \<le> 2 ^ 33"
    and rest: "\<forall>part\<in>set parts. length part \<le> 2 ^ 33"
    and sn: "Suc n + length parts \<le> 2 ^ 31"
    by simp_all
  have "inj_on (\<lambda>j. VLong (sint (monotonically_increasing_id n j))) {0..<length part}"
  proof (rule inj_onI)
    fix a b
    assume "a \<in> {0..<length part}" "b \<in> {0..<length part}"
      and "VLong (sint (monotonically_increasing_id n a)) =
           VLong (sint (monotonically_increasing_id n b))"
    with lp have "a < 2 ^ 33" "b < 2 ^ 33"
      and "sint (monotonically_increasing_id n a) = sint (monotonically_increasing_id n b)"
      by simp_all
    from monotonically_increasing_id_inj[OF n this(1) n this(2) this(3)] show "a = b"
      by simp
  qed
  then have d1: "distinct (map (\<lambda>j. VLong (sint (monotonically_increasing_id n j)))
                   [0..<length part])"
    by (simp add: distinct_map)
  have d2: "distinct ?rest"
    by (rule Cons.IH[OF sn rest])
  have d3: "set (map (\<lambda>j. VLong (sint (monotonically_increasing_id n j))) [0..<length part]) \<inter>
            set ?rest = {}"
  proof (rule ccontr)
    assume "\<not> ?thesis"
    then obtain x where x1: "x \<in> set (map (\<lambda>j. VLong (sint (monotonically_increasing_id n j)))
                   [0..<length part])" and x2: "x \<in> set ?rest"
      by blast
    from x1 obtain a where al: "a < length part"
      and ax: "x = VLong (sint (monotonically_increasing_id n a))"
      by auto
    from al lp have a: "a < 2 ^ 33" "x = VLong (sint (monotonically_increasing_id n a))"
      using ax by simp_all
    from ids_of_parts_set[OF rest x2] obtain p j where
      pj: "x = VLong (sint (monotonically_increasing_id p j))" "Suc n \<le> p"
      "p < Suc n + length parts" "j < 2 ^ 33"
      by blast
    from pj(3) sn have p: "p < 2 ^ 31" by simp
    from a(2) pj(1) have "sint (monotonically_increasing_id n a) =
        sint (monotonically_increasing_id p j)" by simp
    from monotonically_increasing_id_inj[OF n a(1) p pj(4) this] pj(2) show False
      by simp
  qed
  from d1 d2 d3 show ?case by simp
qed

lemma col_index_append_fresh:
  "col_index sch c = None \<Longrightarrow> col_index (sch @ [(c, t)]) c = Some (length sch)"
proof (induction sch)
  case Nil
  then show ?case by simp
next
  case (Cons f fs)
  obtain n u where f: "f = (n, u)" by (cases f)
  from Cons show ?case by (simp add: f split: if_splits)
qed

lemma cell_put_cell:
  assumes "col_index sch c = None" and "length r = length sch"
  shows "cell (put_field sch c t) (put_cell sch c r v) c = v"
proof -
  from assms(2) have "(r @ [v]) ! length sch = v"
    by (simp add: nth_append)
  with assms show ?thesis
    by (simp add: put_field_def put_cell_def cell_def col_index_append_fresh)
qed

lemma ids_of_part:
  assumes "col_index sch c = None" and "\<forall>r\<in>set part. length r = length sch"
  shows "map (\<lambda>r. cell (put_field sch c t) r c)
           (map (\<lambda>(j, r). put_cell sch c r (VLong (sint (monotonically_increasing_id p j))))
              (enumerate 0 part)) =
         map (\<lambda>j. VLong (sint (monotonically_increasing_id p j))) [0..<length part]"
proof -
  have "map (\<lambda>r. cell (put_field sch c t) r c)
           (map (\<lambda>(j, r). put_cell sch c r (VLong (sint (monotonically_increasing_id p j))))
              (enumerate 0 part)) =
        map (\<lambda>x. VLong (sint (monotonically_increasing_id p (fst x)))) (enumerate 0 part)"
    using assms by (auto simp: cell_put_cell in_set_enumerate_eq)
  also have "\<dots> = map ((\<lambda>j. VLong (sint (monotonically_increasing_id p j))) \<circ> fst)
                     (enumerate 0 part)"
    by (simp only: comp_def)
  also have "\<dots> = map (\<lambda>j. VLong (sint (monotonically_increasing_id p j)))
                     (map fst (enumerate 0 part))"
    by (simp only: map_map)
  also have "\<dots> = map (\<lambda>j. VLong (sint (monotonically_increasing_id p j)))
                     [0..<0 + length part]"
    by (simp only: map_fst_enumerate)
  finally show ?thesis by simp
qed

lemma number_rows_ids_aux:
  assumes "col_index sch c = None"
    and "\<forall>part\<in>set parts. \<forall>r\<in>set part. length r = length sch"
  shows "map (\<lambda>r. cell (put_field sch c t) r c)
           (concat (map (\<lambda>(p, part).
              map (\<lambda>(j, r). put_cell sch c r (VLong (sint (monotonically_increasing_id p j))))
                (enumerate 0 part))
            (enumerate n parts))) =
         concat (map (\<lambda>(p, part).
            map (\<lambda>j. VLong (sint (monotonically_increasing_id p j))) [0..<length part])
          (enumerate n parts))"
  using assms(2)
proof (induction parts arbitrary: n)
  case Nil
  then show ?case by simp
next
  case (Cons part parts)
  from Cons.prems have here: "\<forall>r\<in>set part. length r = length sch"
    and later: "\<forall>part\<in>set parts. \<forall>r\<in>set part. length r = length sch"
    by simp_all
  show ?case
    using ids_of_part[OF assms(1) here, of t n] Cons.IH[OF later, of "Suc n"]
    by (simp del: map_map)
qed

lemma number_rows_ids:
  assumes "col_index sch c = None"
    and "\<forall>part\<in>set parts. \<forall>r\<in>set part. length r = length sch"
  shows "map (\<lambda>r. cell (put_field sch c t) r c) (number_rows sch c parts) =
         concat (map (\<lambda>(p, part).
            map (\<lambda>j. VLong (sint (monotonically_increasing_id p j))) [0..<length part])
          (enumerate 0 parts))"
  unfolding number_rows_def by (rule number_rows_ids_aux[OF assms])

lemma length_number_rows_aux:
  "length (concat (map (\<lambda>(p, part). map (F p) (enumerate 0 part)) (enumerate n parts))) =
   length (concat parts)"
  by (induction parts arbitrary: n) simp_all

lemma length_number_rows: "length (number_rows sch c parts) = length (concat parts)"
  unfolding number_rows_def by (rule length_number_rows_aux)

lemma songplays_sql_shape:
  assumes "songplays_sql lt st tt = Inr j"
  shows "col_index (schema j) ''songplay_id'' = None"
    and "length (schema j) = 10"
    and "rows j = Inr jr \<Longrightarrow> \<forall>r\<in>set jr. length r = 10"
proof -
  from assms have sch: "schema j =
      map (field_of (schema lt))
        [''start_time'', ''userId'', ''level'', ''sessionId'', ''location'', ''userAgent''] @
      map (field_of (schema st)) [''song_id'', ''artist_id''] @
      map (field_of (schema tt)) [''year'', ''month'']"
    by (auto simp: songplays_sql_def split: list.splits)
  show "col_index (schema j) ''songplay_id'' = None"
    unfolding col_index_None sch by (simp add: fst_field_of)
  show "length (schema j) = 10"
    unfolding sch by simp
  assume "rows j = Inr jr"
  with assms obtain ls ss ts where "jr = songplays_join lt st tt ls ss ts"
    by (auto simp: songplays_sql_def split: list.splits sum.splits)
  then show "\<forall>r\<in>set jr. length r = 10"
    by (auto simp: songplays_join_def songplays_row_def split: if_splits)
qed

text \<open>
  C8. Whenever the query of lines 171 to 187 yields rows, and the engine lays them out
  over at most \<open>2^31\<close> partitions of at most \<open>2^33\<close> rows each (the limits under which
  \<^verbatim>\<open>monotonically_increasing_id\<close> is documented), the songplays table is produced, it
  has one row for every row of the layout, and no two of its rows have the same
  \<^verbatim>\<open>songplay_id\<close>.
\<close>

theorem songplay_id_unique:
  assumes "songplays_sql lt st tt = Inr j"
    and "rows j = Inr jr"
    and "set (concat (partitions_of eng jr)) \<subseteq> set jr"
    and "length (partitions_of eng jr) \<le> 2 ^ 31"
    and "\<forall>part\<in>set (partitions_of eng jr). length part \<le> 2 ^ 33"
  shows "\<exists>sp rs. songplays_table eng lt st tt = Inr sp \<and> rows sp = Inr rs \<and>
           length rs = length (concat (partitions_of eng jr)) \<and>
           distinct (map (\<lambda>r. cell (schema sp) r ''songplay_id'') rs)"
proof -
  let ?parts = "partitions_of eng jr"
  let ?rs = "number_rows (schema j) ''songplay_id'' ?parts"
  have sp: "songplays_table eng lt st tt = Inr (with_songplay_id eng j)"
    by (simp add: songplays_table_def and_then_def assms(1))
  have rs: "rows (with_songplay_id eng j) = Inr ?rs"
    by (simp add: with_songplay_id_def on_rows_def assms(2))
  have sch: "schema (with_songplay_id eng j) = put_field (schema j) ''songplay_id'' LongType"
    by (simp add: with_songplay_id_def)
  have fresh: "col_index (schema j) ''songplay_id'' = None"
    by (rule songplays_sql_shape(1)[OF assms(1)])
  have len: "\<forall>part\<in>set ?parts. \<forall>r\<in>set part. length r = length (schema j)"
    using assms(3) songplays_sql_shape(2)[OF assms(1)] songplays_sql_shape(3)[OF assms(1,2)]
    by auto
  have "0 + length ?parts \<le> 2 ^ 31"
    using assms(4) by simp
  from ids_of_parts_distinct[OF this assms(5)]
  have "distinct (map (\<lambda>r. cell (schema (with_songplay_id eng j)) r ''songplay_id'') ?rs)"
    unfolding sch number_rows_ids[OF fresh len] .
  with sp rs length_number_rows[of "schema j" "''songplay_id''" ?parts] show ?thesis
    by blast
qed

theorem songplay_id_unique_witness:
  "songplays_sql derived_two song_df_full time_two = Inr joined_two \<and>
   rows joined_two = Inr joined_rows \<and>
   partitions_of eng_utc joined_rows = [joined_rows] \<and>
   length joined_rows = 2 \<and>
   (\<exists>sp rs. songplays_table eng_utc derived_two song_df_full time_two = Inr sp \<and>
      rows sp = Inr rs \<and>
      length rs = length (concat (partitions_of eng_utc joined_rows)) \<and>
      distinct (map (\<lambda>r. cell (schema sp) r ''songplay_id'') rs))"
proof -
  have h1: "songplays_sql derived_two song_df_full time_two = Inr joined_two"
    by code_simp
  have h2: "rows joined_two = Inr joined_rows"
    by (simp add: joined_two_def)
  have p: "partitions_of eng_utc joined_rows = [joined_rows]"
    by (simp add: eng_utc_def)
  have n: "length joined_rows = 2"
    by (simp add: joined_rows_def)
  have h3: "set (concat (partitions_of eng_utc joined_rows)) \<subseteq> set joined_rows"
    by (simp add: p)
  have h4: "length (partitions_of eng_utc joined_rows) \<le> 2 ^ 31"
    by (simp add: p)
  have h5: "\<forall>part\<in>set (partitions_of eng_utc joined_rows). length part \<le> 2 ^ 33"
    by (simp add: p n)
  from songplay_id_unique[OF h1 h2 h3 h4 h5] h1 h2 p n
  show ?thesis by blast
qed



end
